theory Spec2Isabelle
  imports Main
begin

section \<open>The undo/redo session store (\<open>useUndoableState\<close>, src/App.tsx)\<close>

text \<open>
  The hook keeps two pieces of React state: the list \<open>history\<close> and the cursor
  \<open>currentIndex\<close>. The cursor is only ever written as \<open>currentIndex - 1\<close> behind the
  guard \<open>currentIndex > 0\<close>, as \<open>currentIndex + 1\<close>, as \<open>newHistory.length - 1\<close> or as
  \<open>0\<close>, so it is a natural number.

  Values of the store are plain JSON data. The test
  \<open>JSON.stringify(resolvedState) === JSON.stringify(state)\<close> is equality of the
  serialisations, which for the values of this model is equality of the values (objects
  used as dictionaries are association lists in key order, see below).
\<close>

record 'a undoable =
  history :: "'a list"
  currentIndex :: nat

definition useUndoableState :: "'a \<Rightarrow> 'a undoable" where
  "useUndoableState initialState = \<lparr>history = [initialState], currentIndex = 0\<rparr>"

text \<open>\<open>const state = history[currentIndex]\<close>; the index is in range in every store the hook
  builds (\<open>wf_store\<close> below).\<close>

definition state :: "'a undoable \<Rightarrow> 'a" where
  "state h = history h ! currentIndex h"

definition wf_store :: "'a undoable \<Rightarrow> bool" where
  "wf_store h = (currentIndex h < length (history h))"

text \<open>The argument of \<open>setState\<close>: a value, or a function of the previous state
  (\<open>typeof newState === 'function'\<close>). An updater is caller code and may throw; the
  exception then leaves \<open>setState\<close> before anything is written.\<close>

datatype ('e, 'a) new_state = Value 'a | Updater "'a \<Rightarrow> 'e + 'a"

fun resolve :: "('e, 'a) new_state \<Rightarrow> 'a \<Rightarrow> 'e + 'a" where
  "resolve (Value v) prev = Inr v"
| "resolve (Updater f) prev = f prev"

definition setState :: "'a undoable \<Rightarrow> ('e, 'a) new_state \<Rightarrow> 'e + 'a undoable" where
  "setState h newState =
     (case resolve newState (state h) of
        Inl e \<Rightarrow> Inl e
      | Inr resolvedState \<Rightarrow>
          if resolvedState = state h then Inr h
          else
            let newHistory = take (currentIndex h + 1) (history h) @ [resolvedState]
            in Inr \<lparr>history = newHistory, currentIndex = length newHistory - 1\<rparr>)"

definition undo :: "'a undoable \<Rightarrow> 'a undoable" where
  "undo h = (if currentIndex h > 0 then h\<lparr>currentIndex := currentIndex h - 1\<rparr> else h)"

definition redo :: "'a undoable \<Rightarrow> 'a undoable" where
  "redo h =
     (if currentIndex h < length (history h) - 1 then h\<lparr>currentIndex := currentIndex h + 1\<rparr>
      else h)"

definition canUndo :: "'a undoable \<Rightarrow> bool" where
  "canUndo h = (currentIndex h > 0)"

definition canRedo :: "'a undoable \<Rightarrow> bool" where
  "canRedo h = (currentIndex h < length (history h) - 1)"

definition resetState :: "'a \<Rightarrow> 'a undoable" where
  "resetState newState = \<lparr>history = [newState], currentIndex = 0\<rparr>"

text \<open>A run of \<open>setState\<close> calls, one after the other; a throwing updater ends the run.\<close>

fun set_calls :: "'a undoable \<Rightarrow> ('e, 'a) new_state list \<Rightarrow> 'e + 'a undoable" where
  "set_calls h [] = Inr h"
| "set_calls h (x # xs) =
     (case setState h x of Inl e \<Rightarrow> Inl e | Inr h' \<Rightarrow> set_calls h' xs)"

text \<open>
  The specification's reading of the undo law, written without the store: going through
  the calls with the current head value \<open>cur\<close> and the value \<open>prev\<close> that was the head
  before the most recent call that changed it, \<open>value_before_last_distinct_set\<close> is that
  earlier value once all calls are done. Before any distinct call both are the initial
  value.
\<close>

fun value_before_last_distinct_set :: "'a \<Rightarrow> 'a \<Rightarrow> ('e, 'a) new_state list \<Rightarrow> 'a" where
  "value_before_last_distinct_set prev cur [] = prev"
| "value_before_last_distinct_set prev cur (x # xs) =
     (case resolve x cur of
        Inl e \<Rightarrow> prev
      | Inr r \<Rightarrow>
          if r = cur then value_before_last_distinct_set prev cur xs
          else value_before_last_distinct_set cur r xs)"


section \<open>Data model (types.ts) and JavaScript primitives\<close>

text \<open>
  A \<open>File\<close> object and an image URL are opaque handles; both are strings here. The
  field \<open>type\<close> of a wardrobe item has the single value \<open>'top'\<close> and is left out.
\<close>

type_synonym File = string

record WardrobeItem =
  item_id :: string
  item_name :: string
  item_url :: string

text \<open>
  \<open>poseImages: Record<string, string>\<close> is an association list of the object's own
  properties, in the order in which \<open>Object.keys\<close>, \<open>Object.values\<close>, the spread
  \<open>{ ...m }\<close> and \<open>JSON.stringify\<close> enumerate them: the integer-like keys first, in
  ascending numeric order, then the other keys in the order of their insertion.
\<close>

type_synonym pose_images = "(string \<times> string) list"

record OutfitLayer =
  garment :: "WardrobeItem option"
  poseImages :: pose_images

text \<open>\<open>currentOutfitIndex\<close> is written as \<open>0\<close>, as \<open>prev.currentOutfitIndex + 1\<close>, or as
  \<open>layerIndex - 1\<close> after the array read at that index has succeeded: a natural number.\<close>

record EditorState =
  modelImageUrl :: "string option"
  outfitHistory :: "OutfitLayer list"
  currentOutfitIndex :: nat
  currentPose :: string

text \<open>\<open>xs[i]\<close>: \<open>undefined\<close> (here \<open>None\<close>) outside the array.\<close>

definition at_index :: "'a list \<Rightarrow> int \<Rightarrow> 'a option" where
  "at_index xs i = (if 0 \<le> i \<and> i < int (length xs) then Some (xs ! nat i) else None)"

text \<open>\<open>xs.slice(0, e)\<close>: a negative end counts from the end of the array.\<close>

definition slice0 :: "'a list \<Rightarrow> int \<Rightarrow> 'a list" where
  "slice0 xs e = (if e < 0 then take (nat (int (length xs) + e)) xs else take (nat e) xs)"

text \<open>
  An integer-like key (an array index): a decimal numeral without leading zero, at most
  \<open>2^32 - 2\<close>.
\<close>

definition is_digit :: "char \<Rightarrow> bool" where
  "is_digit c = (c \<in> set ''0123456789'')"

definition index_value :: "string \<Rightarrow> nat" where
  "index_value k = foldl (\<lambda>n c. 10 * n + (of_char c - 48)) 0 k"

definition integer_like :: "string \<Rightarrow> bool" where
  "integer_like k =
     (k \<noteq> [] \<and> list_all is_digit k \<and> (k = ''0'' \<or> hd k \<noteq> CHR ''0'')
      \<and> index_value k \<le> 4294967294)"

text \<open>
  \<open>{ ...m, [k]: v }\<close>: an existing key keeps its place; a new integer-like key goes to
  its numeric place among the integer-like keys; any other new key goes last.
\<close>

fun replace_value :: "pose_images \<Rightarrow> string \<Rightarrow> string \<Rightarrow> pose_images" where
  "replace_value [] k v = []"
| "replace_value ((k', v') # m) k v =
     (if k' = k then (k, v) # m else (k', v') # replace_value m k v)"

fun insert_index :: "pose_images \<Rightarrow> string \<Rightarrow> string \<Rightarrow> pose_images" where
  "insert_index [] k v = [(k, v)]"
| "insert_index ((k', v') # m) k v =
     (if integer_like k' \<and> index_value k' < index_value k
      then (k', v') # insert_index m k v
      else (k, v) # (k', v') # m)"

definition assign :: "pose_images \<Rightarrow> string \<Rightarrow> string \<Rightarrow> pose_images" where
  "assign m k v =
     (if k \<in> set (map fst m) then replace_value m k v
      else if integer_like k then insert_index m k v
      else m @ [(k, v)])"

text \<open>The object built by writing the given pairs, in order, into an empty object.\<close>

definition written :: "(string \<times> string) list \<Rightarrow> pose_images" where
  "written ws = foldl (\<lambda>m (k, v). assign m k v) [] ws"

text \<open>
  Every pose-image object has \<open>Object.prototype\<close> as its prototype (it comes from an
  object literal, a spread or \<open>JSON.parse\<close>). These are the names of its members; each
  is a function or an object, so it is truthy and neither \<open>null\<close> nor \<open>undefined\<close>.
\<close>

definition object_prototype_members :: "string list" where
  "object_prototype_members =
     [''constructor'', ''__defineGetter__'', ''__defineSetter__'', ''hasOwnProperty'',
      ''__lookupGetter__'', ''__lookupSetter__'', ''isPrototypeOf'',
      ''propertyIsEnumerable'', ''toString'', ''valueOf'', ''__proto__'',
      ''toLocaleString'']"

text \<open>
  What a read \<open>m[k]\<close> of a pose-image object, or the displayed image derived from it, can
  be: an image URL (a string), or the member of \<open>Object.prototype\<close> of that name.
  \<open>null\<close> and \<open>undefined\<close> are \<open>None\<close>.
\<close>

datatype shown = Url string | Inherited string

text \<open>\<open>m[k]\<close>: the own property, else the inherited member, else \<open>undefined\<close>.\<close>

definition get_property :: "pose_images \<Rightarrow> string \<Rightarrow> shown option" where
  "get_property m k =
     (case map_of m k of
        Some v \<Rightarrow> Some (Url v)
      | None \<Rightarrow> if k \<in> set object_prototype_members then Some (Inherited k) else None)"

text \<open>\<open>k in m\<close>: own and inherited properties.\<close>

definition has_property :: "pose_images \<Rightarrow> string \<Rightarrow> bool" where
  "has_property m k = (k \<in> set (map fst m) \<or> k \<in> set object_prototype_members)"

text \<open>Truthiness: \<open>null\<close>, \<open>undefined\<close> and the empty string are falsy.\<close>

fun truthy :: "shown option \<Rightarrow> bool" where
  "truthy None = False"
| "truthy (Some (Url s)) = (s \<noteq> [])"
| "truthy (Some (Inherited k)) = True"

definition POSE_INSTRUCTIONS :: "string list" where
  "POSE_INSTRUCTIONS =
     [''Full frontal view, hands on hips'',
      ''Slightly turned, 3/4 view'',
      ''Side profile view'',
      ''Jumping in the air, mid-action shot'',
      ''Walking towards camera'',
      ''Leaning against a wall'']"

definition defaultWardrobe :: "WardrobeItem list" where
  "defaultWardrobe =
     [\<lparr>item_id = ''gray-sweatshirt'', item_name = ''Gray Sweatshirt'',
       item_url = ''https://raw.githubusercontent.com/ammaarreshi/app-images/refs/heads/main/gemini-sweat-2.png''\<rparr>,
      \<lparr>item_id = ''white-tee'', item_name = ''White T-Shirt'',
       item_url = ''https://raw.githubusercontent.com/ammaarreshi/app-images/refs/heads/main/Gemini-tee.png''\<rparr>]"

definition initialEditorState :: EditorState where
  "initialEditorState =
     \<lparr>modelImageUrl = None, outfitHistory = [], currentOutfitIndex = 0,
      currentPose = POSE_INSTRUCTIONS ! 0\<rparr>"

section \<open>The component state of \<open>App\<close> and the derived values\<close>

text \<open>
  The pieces of React state that the handlers below read or write. \<open>editorHistory\<close> is the
  state of the \<open>useUndoableState\<close> hook; \<open>editorState\<close> is its current value.
\<close>

record AppState =
  editorHistory :: "EditorState undoable"
  isLoading :: bool
  loadingMessage :: string
  error :: "string option"
  isSheetCollapsed :: bool
  wardrobe :: "WardrobeItem list"
  stylistSuggestion :: "string option"
  colorPalette :: "string list option"
  isStyling :: bool
  isShooting :: bool
  repatternTarget :: "(int \<times> string) option"

definition initialAppState :: AppState where
  "initialAppState =
     \<lparr>editorHistory = useUndoableState initialEditorState,
      isLoading = False, loadingMessage = [], error = None, isSheetCollapsed = False,
      wardrobe = defaultWardrobe, stylistSuggestion = None, colorPalette = None,
      isStyling = False, isShooting = False, repatternTarget = None\<rparr>"

definition editorState :: "AppState \<Rightarrow> EditorState" where
  "editorState a = state (editorHistory a)"

definition isBusy :: "AppState \<Rightarrow> bool" where
  "isBusy a = (isLoading a \<or> isStyling a \<or> isShooting a)"

definition activeOutfitLayers :: "EditorState \<Rightarrow> OutfitLayer list" where
  "activeOutfitLayers s = slice0 (outfitHistory s) (int (currentOutfitIndex s) + 1)"

definition displayImageUrl :: "EditorState \<Rightarrow> shown option" where
  "displayImageUrl s =
     (if length (outfitHistory s) = 0 then map_option Url (modelImageUrl s)
      else
        case at_index (outfitHistory s) (int (currentOutfitIndex s)) of
          None \<Rightarrow> map_option Url (modelImageUrl s)
        | Some currentLayer \<Rightarrow>
            (case get_property (poseImages currentLayer) (currentPose s) of
               Some x \<Rightarrow> Some x
             | None \<Rightarrow>
                 (case map snd (poseImages currentLayer) of
                    [] \<Rightarrow> None
                  | url # _ \<Rightarrow> Some (Url url))))"

section \<open>The Gateway and the environment of a handler\<close>

text \<open>
  The calls of services/geminiService.ts that the engine awaits, with the arguments the
  handlers pass (the displayed image is passed as it is). A call resolves to a string (an
  image URL, or the \<open>File\<close> of \<open>cleanupGarmentImage\<close>) or rejects with an error whose
  message is the \<open>Inl\<close> value. \<open>getFriendlyErrorMessage\<close> of lib/utils and
  the browser's \<open>URL.createObjectURL\<close> are parameters of the model.
\<close>

datatype gateway_call =
    CleanupGarmentImage File
  | GenerateVirtualTryOnImage shown File
  | GeneratePoseVariation string string
  | GenerateBackground shown string
  | RepatternGarment shown string string

record env =
  gateway :: "gateway_call \<Rightarrow> string + string"
  getFriendlyErrorMessage :: "string \<Rightarrow> string \<Rightarrow> string"
  createObjectURL :: "File \<Rightarrow> string"

text \<open>
  What an updater can do besides returning the next state: throw a \<open>TypeError\<close> (a
  property read on \<open>undefined\<close>), or build a value that is no \<open>EditorState\<close> (an array
  written outside its bounds, a pose that is \<open>undefined\<close>); the model stops at the latter.
\<close>

datatype update_fault = TypeError | OutsideModel

text \<open>
  The result of a handler, observed when its promise has settled: the component state and
  the Gateway calls that were made, in order. A handler is taken as one step: no other
  event is handled between its start and its end, which is what the busy flag is there
  for, so the \<open>prev\<close> of an updater is the snapshot the handler started from.
  \<open>Throws\<close> is an exception that leaves the handler uncaught.
\<close>

datatype outcome =
    Returns AppState "gateway_call list"
  | Throws AppState "gateway_call list"
  | Unrepresentable

fun calls :: "outcome \<Rightarrow> gateway_call list" where
  "calls (Returns a cs) = cs"
| "calls (Throws a cs) = cs"
| "calls Unrepresentable = []"

fun after :: "outcome \<Rightarrow> AppState option" where
  "after (Returns a cs) = Some a"
| "after (Throws a cs) = Some a"
| "after Unrepresentable = None"

definition clearSuggestions :: "AppState \<Rightarrow> AppState" where
  "clearSuggestions a = a\<lparr>stylistSuggestion := None, colorPalette := None\<rparr>"

text \<open>The \<open>catch\<close> and \<open>finally\<close> blocks shared by the asynchronous handlers.\<close>

definition catch_block :: "env \<Rightarrow> string \<Rightarrow> string \<Rightarrow> AppState \<Rightarrow> AppState" where
  "catch_block e message fallback a =
     a\<lparr>error := Some (getFriendlyErrorMessage e message fallback)\<rparr>"

definition finally_block :: "AppState \<Rightarrow> AppState" where
  "finally_block a = a\<lparr>isLoading := False, loadingMessage := []\<rparr>"

text \<open>
  A component state is \<open>cleaned_up\<close> when it is what the \<open>finally\<close> block leaves of a state
  whose loading flag was on.
\<close>

definition cleaned_up :: "AppState \<Rightarrow> bool" where
  "cleaned_up a' = (\<exists>b. isLoading b \<and> a' = finally_block b)"

text \<open>\<open>setEditorState(updater)\<close>: the \<open>setState\<close> of the hook, on the editor's history.\<close>

definition setEditorState ::
  "AppState \<Rightarrow> (EditorState \<Rightarrow> update_fault + EditorState) \<Rightarrow> update_fault + AppState" where
  "setEditorState a f =
     (case setState (editorHistory a) (Updater f) of
        Inl fault \<Rightarrow> Inl fault
      | Inr h \<Rightarrow> Inr (a\<lparr>editorHistory := h\<rparr>))"

section \<open>The engine operations (handlers of \<open>App\<close>)\<close>

definition handleModelFinalized :: "AppState \<Rightarrow> string \<Rightarrow> AppState" where
  "handleModelFinalized a url =
     a\<lparr>editorHistory :=
         resetState
           (initialEditorState
              \<lparr>modelImageUrl := Some url,
               outfitHistory := [\<lparr>garment = None, poseImages = [(POSE_INSTRUCTIONS ! 0, url)]\<rparr>]\<rparr>)\<rparr>"

definition handleStartOver :: "AppState \<Rightarrow> AppState" where
  "handleStartOver a =
     a\<lparr>editorHistory := resetState initialEditorState,
       isLoading := False, loadingMessage := [], error := None, isSheetCollapsed := False,
       wardrobe := defaultWardrobe, stylistSuggestion := None, colorPalette := None,
       isStyling := False\<rparr>"

definition handleUndo :: "AppState \<Rightarrow> AppState" where
  "handleUndo a = a\<lparr>editorHistory := undo (editorHistory a)\<rparr>"

definition handleRedo :: "AppState \<Rightarrow> AppState" where
  "handleRedo a = a\<lparr>editorHistory := redo (editorHistory a)\<rparr>"

text \<open>The updaters passed to \<open>setEditorState\<close>, in the order of the source.\<close>

definition advanceUpdater :: "EditorState \<Rightarrow> update_fault + EditorState" where
  "advanceUpdater prev = Inr (prev\<lparr>currentOutfitIndex := currentOutfitIndex prev + 1\<rparr>)"

definition appendLayerUpdater :: "OutfitLayer \<Rightarrow> EditorState \<Rightarrow> update_fault + EditorState" where
  "appendLayerUpdater newLayer prev =
     (let newHistory = slice0 (outfitHistory prev) (int (currentOutfitIndex prev) + 1)
      in Inr (prev\<lparr>outfitHistory := newHistory @ [newLayer],
                   currentOutfitIndex := currentOutfitIndex prev + 1\<rparr>))"

text \<open>
  \<open>const layer = { ...newOutfitHistory[i] }; layer.poseImages = ...; newOutfitHistory[i] = layer\<close>.
  Outside the array the source would create a layer object without a \<open>garment\<close> field and,
  past the end, a sparse array; neither is an \<open>OutfitLayer[]\<close>.
\<close>

definition rewriteLayer ::
  "OutfitLayer list \<Rightarrow> nat \<Rightarrow> (pose_images \<Rightarrow> pose_images) \<Rightarrow> update_fault + OutfitLayer list" where
  "rewriteLayer layers i f =
     (if i < length layers
      then Inr (layers[i := (layers ! i)\<lparr>poseImages := f (poseImages (layers ! i))\<rparr>])
      else Inl OutsideModel)"

definition poseUpdater :: "string \<Rightarrow> string \<Rightarrow> EditorState \<Rightarrow> update_fault + EditorState" where
  "poseUpdater newPose newImageUrl prev =
     (case rewriteLayer (outfitHistory prev) (currentOutfitIndex prev)
             (\<lambda>m. assign m newPose newImageUrl) of
        Inl fault \<Rightarrow> Inl fault
      | Inr newOutfitHistory \<Rightarrow>
          Inr (prev\<lparr>outfitHistory := newOutfitHistory, currentPose := newPose\<rparr>))"

definition backgroundUpdater :: "string \<Rightarrow> EditorState \<Rightarrow> update_fault + EditorState" where
  "backgroundUpdater newImageUrl prev =
     (case rewriteLayer (outfitHistory prev) (currentOutfitIndex prev)
             (\<lambda>m. assign m (currentPose prev) newImageUrl) of
        Inl fault \<Rightarrow> Inl fault
      | Inr newOutfitHistory \<Rightarrow> Inr (prev\<lparr>outfitHistory := newOutfitHistory\<rparr>))"

definition repatternUpdater :: "string \<Rightarrow> EditorState \<Rightarrow> update_fault + EditorState" where
  "repatternUpdater newImageUrl prev =
     (case rewriteLayer (outfitHistory prev) (currentOutfitIndex prev)
             (\<lambda>m. [(currentPose prev, newImageUrl)]) of
        Inl fault \<Rightarrow> Inl fault
      | Inr newOutfitHistory \<Rightarrow> Inr (prev\<lparr>outfitHistory := newOutfitHistory\<rparr>))"

definition removeLayerUpdater :: "int \<Rightarrow> EditorState \<Rightarrow> update_fault + EditorState" where
  "removeLayerUpdater layerIndex prev =
     (let newHistory = slice0 (outfitHistory prev) layerIndex;
          newIndex = layerIndex - 1
      in case at_index newHistory newIndex of
           None \<Rightarrow> Inl TypeError
         | Some lastValidLayer \<Rightarrow>
             (if has_property (poseImages lastValidLayer) (currentPose prev)
              then Inr (prev\<lparr>outfitHistory := newHistory, currentOutfitIndex := nat newIndex\<rparr>)
              else
                case map fst (poseImages lastValidLayer) of
                  [] \<Rightarrow> Inl OutsideModel
                | lastValidPose # _ \<Rightarrow>
                    Inr (prev\<lparr>outfitHistory := newHistory, currentOutfitIndex := nat newIndex,
                              currentPose := lastValidPose\<rparr>)))"

text \<open>\<open>setWardrobe(prev => ...)\<close> of \<open>handleGarmentSelect\<close>.\<close>

definition wardrobeUpdater :: "WardrobeItem \<Rightarrow> WardrobeItem list \<Rightarrow> WardrobeItem list" where
  "wardrobeUpdater finalGarmentInfo prev =
     (if \<exists>item \<in> set prev. item_id item = item_id finalGarmentInfo
      then map (\<lambda>item. if item_id item = item_id finalGarmentInfo then finalGarmentInfo else item) prev
      else prev @ [finalGarmentInfo])"

text \<open>
  The part of \<open>handleGarmentSelect\<close> from \<open>setLoadingMessage(`Adding ...`)\<close> to the end;
  \<open>name\<close> is \<open>garmentInfo.name\<close>.
\<close>

definition tryOn ::
  "env \<Rightarrow> AppState \<Rightarrow> shown \<Rightarrow> string \<Rightarrow> File \<Rightarrow> WardrobeItem \<Rightarrow> gateway_call list
     \<Rightarrow> outcome" where
  "tryOn e a0 displayed name finalGarmentFile finalGarmentInfo made =
     (let a = a0\<lparr>loadingMessage := ''Adding '' @ name @ ''...''\<rparr>;
          call = GenerateVirtualTryOnImage displayed finalGarmentFile
      in case gateway e call of
           Inl message \<Rightarrow>
             Returns (finally_block (catch_block e message ''Failed to apply garment'' a))
                     (made @ [call])
         | Inr newImageUrl \<Rightarrow>
             (let newLayer = \<lparr>garment = Some finalGarmentInfo,
                              poseImages = [(currentPose (editorState a), newImageUrl)]\<rparr>
              in case setEditorState a (appendLayerUpdater newLayer) of
                   Inl fault \<Rightarrow> Unrepresentable
                 | Inr a' \<Rightarrow>
                     Returns (finally_block
                                (a'\<lparr>wardrobe := wardrobeUpdater finalGarmentInfo (wardrobe a')\<rparr>))
                             (made @ [call])))"

text \<open>\<open>nextLayer && nextLayer.garment?.id === garmentInfo.id\<close>, where
  \<open>nextLayer = outfitHistory[currentOutfitIndex + 1]\<close>.\<close>

definition redoShortcut :: "EditorState \<Rightarrow> WardrobeItem \<Rightarrow> bool" where
  "redoShortcut s garmentInfo =
     (case at_index (outfitHistory s) (int (currentOutfitIndex s) + 1) of
        None \<Rightarrow> False
      | Some nextLayer \<Rightarrow> map_option item_id (garment nextLayer) = Some (item_id garmentInfo))"

definition handleGarmentSelect ::
  "env \<Rightarrow> AppState \<Rightarrow> File \<Rightarrow> WardrobeItem \<Rightarrow> bool \<Rightarrow> outcome" where
  "handleGarmentSelect e a garmentFile garmentInfo enhance =
     (if \<not> truthy (displayImageUrl (editorState a)) \<or> isBusy a then Returns a []
      else
        case displayImageUrl (editorState a) of
          None \<Rightarrow> Returns a []
        | Some displayed \<Rightarrow>
            let a1 = clearSuggestions a
            in if redoShortcut (editorState a) garmentInfo
               then (case setEditorState a1 advanceUpdater of
                       Inl fault \<Rightarrow> Unrepresentable
                     | Inr a' \<Rightarrow> Returns a' [])
               else
                 let a2 = a1\<lparr>error := None, isLoading := True\<rparr>
                 in if enhance
                    then
                      let a3 = a2\<lparr>loadingMessage :=
                                    ''Enhancing '' @ item_name garmentInfo @ ''...''\<rparr>
                      in (case gateway e (CleanupGarmentImage garmentFile) of
                            Inl message \<Rightarrow>
                              Returns (finally_block
                                         (catch_block e message ''Failed to apply garment'' a3))
                                      [CleanupGarmentImage garmentFile]
                          | Inr enhancedFile \<Rightarrow>
                              tryOn e a3 displayed (item_name garmentInfo) enhancedFile
                                (garmentInfo\<lparr>item_url := createObjectURL e enhancedFile\<rparr>)
                                [CleanupGarmentImage garmentFile])
                    else tryOn e a2 displayed (item_name garmentInfo) garmentFile garmentInfo [])"

definition handlePoseSelect :: "env \<Rightarrow> AppState \<Rightarrow> string \<Rightarrow> outcome" where
  "handlePoseSelect e a newPose =
     (if isBusy a \<or> length (outfitHistory (editorState a)) = 0
         \<or> newPose = currentPose (editorState a)
      then Returns a []
      else
        let a1 = clearSuggestions a
        in case at_index (outfitHistory (editorState a))
                  (int (currentOutfitIndex (editorState a))) of
             None \<Rightarrow> Throws a1 []
           | Some currentLayer \<Rightarrow>
               if truthy (get_property (poseImages currentLayer) newPose)
               then (case setEditorState a1 (\<lambda>prev. Inr (prev\<lparr>currentPose := newPose\<rparr>)) of
                       Inl fault \<Rightarrow> Unrepresentable
                     | Inr a' \<Rightarrow> Returns a' [])
               else
                 case map snd (poseImages currentLayer) of
                   [] \<Rightarrow> Returns a1 []
                 | baseImageForPoseChange # _ \<Rightarrow>
                     if baseImageForPoseChange = [] then Returns a1 []
                     else
                       let a2 = a1\<lparr>error := None, isLoading := True,
                                    loadingMessage := ''Changing pose...''\<rparr>;
                           call = GeneratePoseVariation baseImageForPoseChange newPose
                       in case gateway e call of
                            Inl message \<Rightarrow>
                              Returns (finally_block
                                         (catch_block e message ''Failed to change pose'' a2))
                                      [call]
                          | Inr newImageUrl \<Rightarrow>
                              (case setEditorState a2 (poseUpdater newPose newImageUrl) of
                                 Inl fault \<Rightarrow> Unrepresentable
                               | Inr a' \<Rightarrow> Returns (finally_block a') [call]))"

definition handleBackgroundChange :: "env \<Rightarrow> AppState \<Rightarrow> string \<Rightarrow> outcome" where
  "handleBackgroundChange e a backgroundPrompt =
     (if \<not> truthy (displayImageUrl (editorState a)) \<or> isBusy a then Returns a []
      else
        case displayImageUrl (editorState a) of
          None \<Rightarrow> Returns a []
        | Some displayed \<Rightarrow>
            let a1 = (clearSuggestions a)\<lparr>error := None, isLoading := True,
                                          loadingMessage := ''Generating new scene...''\<rparr>;
                call = GenerateBackground displayed backgroundPrompt
            in case gateway e call of
                 Inl message \<Rightarrow>
                   Returns (finally_block
                              (catch_block e message ''Failed to change background'' a1))
                           [call]
               | Inr newImageUrl \<Rightarrow>
                   (case setEditorState a1 (backgroundUpdater newImageUrl) of
                      Inl fault \<Rightarrow> Unrepresentable
                    | Inr a' \<Rightarrow> Returns (finally_block a') [call]))"

definition handleRepattern :: "env \<Rightarrow> AppState \<Rightarrow> string \<Rightarrow> outcome" where
  "handleRepattern e a patternPrompt =
     (if \<not> truthy (displayImageUrl (editorState a)) \<or> repatternTarget a = None \<or> isBusy a
      then Returns a []
      else
        case (displayImageUrl (editorState a), repatternTarget a) of
          (Some displayed, Some (layerIndex, garmentName)) \<Rightarrow>
            (let a1 = a\<lparr>repatternTarget := None, error := None, isLoading := True,
                         loadingMessage :=
                           ''Applying new pattern to '' @ garmentName @ ''...''\<rparr>;
                 call = RepatternGarment displayed garmentName patternPrompt
             in case gateway e call of
                  Inl message \<Rightarrow>
                    Returns (finally_block
                               (catch_block e message ''Failed to repattern garment'' a1))
                            [call]
                | Inr newImageUrl \<Rightarrow>
                    (case setEditorState a1 (repatternUpdater newImageUrl) of
                       Inl fault \<Rightarrow> Unrepresentable
                     | Inr a' \<Rightarrow> Returns (finally_block a') [call]))
        | _ \<Rightarrow> Returns a [])"

definition handleRemoveLayer :: "AppState \<Rightarrow> int \<Rightarrow> outcome" where
  "handleRemoveLayer a layerIndex =
     (if isBusy a then Returns a []
      else
        case setEditorState a (removeLayerUpdater layerIndex) of
          Inl TypeError \<Rightarrow> Throws a []
        | Inl OutsideModel \<Rightarrow> Unrepresentable
        | Inr a' \<Rightarrow> Returns a' [])"

text \<open>
  components/OutfitStack.tsx renders the layers it is given (\<open>activeOutfitLayers\<close>) and,
  for each \<open>index > 0\<close>, a button that calls \<open>onRemoveLayer(index)\<close>. \<open>removeControls\<close> is
  the list of indices that have such a button.
\<close>

definition removeControls :: "OutfitLayer list \<Rightarrow> int list" where
  "removeControls layers = map int (filter (\<lambda>index. index > 0) [0..<length layers])"

section \<open>Sequences of engine operations\<close>

datatype op =
    FinalizeModel string
  | ApplyGarment File WardrobeItem bool
  | SelectPose string
  | ChangeBackground string
  | RemoveLayer int
  | Reset
  | Undo
  | Redo

fun step :: "env \<Rightarrow> AppState \<Rightarrow> op \<Rightarrow> outcome" where
  "step e a (FinalizeModel url) = Returns (handleModelFinalized a url) []"
| "step e a (ApplyGarment garmentFile garmentInfo enhance) =
     handleGarmentSelect e a garmentFile garmentInfo enhance"
| "step e a (SelectPose newPose) = handlePoseSelect e a newPose"
| "step e a (ChangeBackground backgroundPrompt) = handleBackgroundChange e a backgroundPrompt"
| "step e a (RemoveLayer layerIndex) = handleRemoveLayer a layerIndex"
| "step e a Reset = Returns (handleStartOver a) []"
| "step e a Undo = Returns (handleUndo a) []"
| "step e a Redo = Returns (handleRedo a) []"

text \<open>
  A script pairs each operation with the environment it runs in, so the Gateway may answer
  differently each time. An exception leaves the component state as it was when thrown and
  the session goes on.
\<close>

fun run :: "AppState \<Rightarrow> (env \<times> op) list \<Rightarrow> AppState option" where
  "run a [] = Some a"
| "run a ((e, x) # script) =
     (case after (step e a x) of None \<Rightarrow> None | Some a' \<Rightarrow> run a' script)"

text \<open>
  The layer invariant of the specification, and what else holds of every snapshot of a
  session that starts from the initial state: without layers there is no model image,
  every layer has a pose image, and the active layer is the last layer.
\<close>

definition layer_invariant :: "EditorState \<Rightarrow> bool" where
  "layer_invariant s =
     ((outfitHistory s \<noteq> [] \<longrightarrow> currentOutfitIndex s < length (outfitHistory s))
      \<and> (outfitHistory s \<noteq> [] \<longrightarrow> garment (outfitHistory s ! 0) = None))"

definition snapshot_ok :: "EditorState \<Rightarrow> bool" where
  "snapshot_ok s =
     (layer_invariant s
      \<and> (outfitHistory s = [] \<longrightarrow> modelImageUrl s = None)
      \<and> (\<forall>l \<in> set (outfitHistory s). poseImages l \<noteq> [])
      \<and> (outfitHistory s \<noteq> [] \<longrightarrow> currentOutfitIndex s + 1 = length (outfitHistory s)))"

definition app_ok :: "AppState \<Rightarrow> bool" where
  "app_ok a =
     (wf_store (editorHistory a) \<and> (\<forall>s \<in> set (history (editorHistory a)). snapshot_ok s))"

section \<open>Example data\<close>

text \<open>
  An environment whose Gateway answers as the given function says, a garment, and two
  snapshots given directly (\<open>handleLoadLook\<close> installs whatever snapshot a saved look
  holds): one whose active layer is the base layer with the layer of \<open>g1\<close> kept behind
  it, and the same look with \<open>g1\<close> worn and shown from the side.
\<close>

definition mock_env :: "(gateway_call \<Rightarrow> string + string) \<Rightarrow> env" where
  "mock_env answer =
     \<lparr>gateway = answer,
      getFriendlyErrorMessage = (\<lambda>message fallback. fallback @ '': '' @ message),
      createObjectURL = (\<lambda>f. ''blob:'' @ f)\<rparr>"

definition g1 :: WardrobeItem where
  "g1 = \<lparr>item_id = ''g1'', item_name = ''Shirt'', item_url = ''g1.png''\<rparr>"

definition stashed_look :: EditorState where
  "stashed_look =
     \<lparr>modelImageUrl = Some ''M'',
      outfitHistory =
        [\<lparr>garment = None, poseImages = [(''front'', ''M'')]\<rparr>,
         \<lparr>garment = Some g1, poseImages = [(''front'', ''X''), (''side'', ''Y'')]\<rparr>],
      currentOutfitIndex = 0,
      currentPose = ''front''\<rparr>"

definition dressed_look :: EditorState where
  "dressed_look = stashed_look\<lparr>currentOutfitIndex := 1, currentPose := ''side''\<rparr>"

definition loaded :: "EditorState \<Rightarrow> AppState" where
  "loaded s = initialAppState\<lparr>editorHistory := resetState s\<rparr>"

text \<open>
  The scenario of the specification: the model image \<open>M\<close> is finalized, the garment
  \<open>g1\<close> is applied while the Gateway answers \<open>X\<close>, \<open>undo\<close> is pressed, and \<open>g1\<close> is
  applied again.
\<close>

definition scenario_env :: env where
  "scenario_env = mock_env (\<lambda>c. Inr ''X'')"

definition scenario_finalized :: AppState where
  "scenario_finalized = handleModelFinalized initialAppState ''M''"

definition scenario_applied :: outcome where
  "scenario_applied = handleGarmentSelect scenario_env scenario_finalized ''g1.png'' g1 False"

definition scenario_undone :: AppState where
  "scenario_undone =
     handleUndo (case after scenario_applied of Some a \<Rightarrow> a | None \<Rightarrow> scenario_finalized)"

definition scenario_reapplied :: outcome where
  "scenario_reapplied = handleGarmentSelect scenario_env scenario_undone ''g1.png'' g1 False"

text \<open>A session that uses every operation; one step meets a failing Gateway, one removal
  is given index 0.\<close>

definition example_session :: "(env \<times> op) list" where
  "example_session =
     [(scenario_env, FinalizeModel ''N''),
      (scenario_env, Reset),
      (scenario_env, FinalizeModel ''M''),
      (scenario_env, ApplyGarment ''g1.png'' g1 False),
      (scenario_env, SelectPose ''side''),
      (scenario_env, ChangeBackground ''beach''),
      (mock_env (\<lambda>c. Inl ''blocked''), ApplyGarment ''g2.png'' g1 True),
      (scenario_env, RemoveLayer 0),
      (scenario_env, RemoveLayer 1),
      (scenario_env, Undo),
      (scenario_env, Redo),
      (scenario_env, Undo)]"

section \<open>The session store: proofs\<close>

definition at_end :: "'a undoable \<Rightarrow> bool" where
  "at_end h = (history h \<noteq> [] \<and> currentIndex h = length (history h) - 1)"

lemma at_end_wf: "at_end h \<Longrightarrow> wf_store h"
  by (cases "history h") (auto simp: at_end_def wf_store_def)

lemma wf_useUndoableState: "wf_store (useUndoableState v)"
  by (simp add: wf_store_def useUndoableState_def)

lemma wf_resetState: "wf_store (resetState v)"
  by (simp add: wf_store_def resetState_def)

lemma wf_undo: "wf_store h \<Longrightarrow> wf_store (undo h)"
  by (auto simp: wf_store_def undo_def)

lemma wf_redo: "wf_store h \<Longrightarrow> wf_store (redo h)"
  by (auto simp: wf_store_def redo_def)

lemma setState_cases:
  assumes "setState h x = Inr h'"
  obtains (same) r where "resolve x (state h) = Inr r" "r = state h" "h' = h"
  | (grown) r where "resolve x (state h) = Inr r" "r \<noteq> state h"
      "h' = \<lparr>history = take (currentIndex h + 1) (history h) @ [r],
             currentIndex = length (take (currentIndex h + 1) (history h))\<rparr>"
  using assms by (auto simp: setState_def Let_def split: sum.splits if_splits)

lemma wf_setState: "wf_store h \<Longrightarrow> setState h x = Inr h' \<Longrightarrow> wf_store h'"
  by (erule setState_cases) (auto simp: wf_store_def)

lemma set_history_setState:
  "setState h x = Inr h' \<Longrightarrow> resolve x (state h) = Inr r \<Longrightarrow>
   set (history h') \<subseteq> insert r (set (history h))"
  by (erule setState_cases) (auto dest: in_set_takeD)

lemma state_setState:
  "wf_store h \<Longrightarrow> setState h x = Inr h' \<Longrightarrow> resolve x (state h) = Inr r \<Longrightarrow> state h' = r"
  by (erule setState_cases) (auto simp: state_def wf_store_def nth_append)

lemma state_in_history: "wf_store h \<Longrightarrow> state h \<in> set (history h)"
  by (simp add: state_def wf_store_def)

lemma at_end_setState: "at_end h \<Longrightarrow> setState h x = Inr h' \<Longrightarrow> at_end h'"
  by (erule setState_cases) (auto simp: at_end_def)

lemma undo_setState_grown:
  assumes "wf_store h" "setState h x = Inr h'" "resolve x (state h) = Inr r" "r \<noteq> state h"
  shows "state (undo h') = state h"
  using assms(2)
proof (cases rule: setState_cases)
  case (same r')
  with assms show ?thesis by simp
next
  case (grown r')
  from assms(1) have len: "length (take (currentIndex h + 1) (history h)) = currentIndex h + 1"
    by (simp add: wf_store_def)
  show ?thesis
    unfolding grown(3) undo_def state_def using len by (simp add: nth_append)
qed

lemma set_calls_at_end:
  "at_end h \<Longrightarrow> set_calls h xs = Inr h' \<Longrightarrow>
   at_end h' \<and> state (undo h') = value_before_last_distinct_set (state (undo h)) (state h) xs"
proof (induction xs arbitrary: h)
  case Nil
  then show ?case by simp
next
  case (Cons x xs)
  from Cons.prems(2) obtain h1 where h1: "setState h x = Inr h1" and rest: "set_calls h1 xs = Inr h'"
    by (auto split: sum.splits)
  from h1 obtain r where r: "resolve x (state h) = Inr r"
    by (auto simp: setState_def split: sum.splits)
  have e1: "at_end h1" using Cons.prems(1) h1 by (rule at_end_setState)
  have wf: "wf_store h" using Cons.prems(1) by (rule at_end_wf)
  have s1: "state h1 = r" using wf h1 r by (rule state_setState)
  from Cons.IH[OF e1 rest]
  have IH: "at_end h' \<and>
    state (undo h') = value_before_last_distinct_set (state (undo h1)) r xs"
    by (simp add: s1)
  show ?case
  proof (cases "r = state h")
    case True
    then have "h1 = h" using h1 r by (auto simp: setState_def)
    with IH True r show ?thesis by simp
  next
    case False
    have "state (undo h1) = state h" using wf h1 r False by (rule undo_setState_grown)
    with IH False r show ?thesis by simp
  qed
qed

lemma redo_undo_at_end: "at_end h \<Longrightarrow> redo (undo h) = h"
  by (auto simp: at_end_def undo_def redo_def)

lemma redo_undo_pos: "wf_store h \<Longrightarrow> 0 < currentIndex h \<Longrightarrow> redo (undo h) = h"
  by (auto simp: wf_store_def undo_def redo_def)

text \<open>
  Claim C2 (undo/redo inverse law). Start from a fresh store holding \<open>v0\<close> and make any
  sequence of \<open>setState\<close> calls (values or updaters), none of which throws. Then \<open>undo\<close>
  shows the value that was the head immediately before the most recent call that changed
  it (\<open>v0\<close> itself if no call did); \<open>undo\<close> moves the cursor back by one and leaves the
  history alone, and is a no-op at cursor 0; and \<open>redo\<close> right after that \<open>undo\<close> gives
  back the store, hence the value, that was undone.
\<close>

theorem undo_redo_inverse_law:
  assumes "set_calls (useUndoableState v0) xs = Inr h"
  shows "state (undo h) = value_before_last_distinct_set v0 v0 xs
    \<and> history (undo h) = history h
    \<and> currentIndex (undo h) = (if currentIndex h = 0 then 0 else currentIndex h - 1)
    \<and> redo (undo h) = h
    \<and> state (redo (undo h)) = state h"
proof -
  have e0: "at_end (useUndoableState v0)"
    by (simp add: at_end_def useUndoableState_def)
  have u0: "state (undo (useUndoableState v0)) = v0" "state (useUndoableState v0) = v0"
    by (simp_all add: undo_def useUndoableState_def state_def)
  from set_calls_at_end[OF e0 assms]
  have 1: "state (undo h) = value_before_last_distinct_set v0 v0 xs" and e: "at_end h"
    by (simp_all add: u0)
  have 2: "history (undo h) = history h"
    by (simp add: undo_def)
  have 3: "currentIndex (undo h) = (if currentIndex h = 0 then 0 else currentIndex h - 1)"
    by (simp add: undo_def)
  from e have 4: "redo (undo h) = h" by (rule redo_undo_at_end)
  from 1 2 3 4 show ?thesis by simp
qed

theorem undo_redo_inverse_law_witness:
  "set_calls (useUndoableState (1::nat))
     [Value 2, Updater (\<lambda>n. Inr (n + 1)), Value 3, Updater (\<lambda>n. (Inr n :: unit + nat))]
   = Inr \<lparr>history = [1, 2, 3], currentIndex = 2\<rparr>
   \<and> state (undo \<lparr>history = [1::nat, 2, 3], currentIndex = 2\<rparr>) = 2
   \<and> state (redo (undo \<lparr>history = [1::nat, 2, 3], currentIndex = 2\<rparr>)) = 3"
proof -
  have run: "set_calls (useUndoableState (1::nat))
     [Value 2, Updater (\<lambda>n. Inr (n + 1)), Value 3, Updater (\<lambda>n. (Inr n :: unit + nat))]
   = Inr \<lparr>history = [1, 2, 3], currentIndex = 2\<rparr>"
    by (simp add: setState_def useUndoableState_def state_def)
  from undo_redo_inverse_law[OF run] run show ?thesis
    by (simp add: state_def)
qed

text \<open>
  Claim C3 (no-op coalescing). Take any store of the hook (its cursor is in range) and let
  \<open>v\<close> be the value that the argument of \<open>setState\<close>, a value or an updater, resolves to
  against the current head. If \<open>v\<close> equals the head, the store is returned as it is:
  history, its length and the cursor are unchanged. Otherwise the entries after the cursor
  are dropped, \<open>v\<close> is appended, and the cursor moves to the new last position, the old
  cursor plus one, so that \<open>v\<close> is the new head.
\<close>

theorem setState_coalescing:
  assumes "wf_store h" "resolve x (state h) = Inr v"
  shows "(v = state h \<longrightarrow> setState h x = Inr h)
    \<and> (v \<noteq> state h \<longrightarrow>
          setState h x =
            Inr \<lparr>history = take (currentIndex h + 1) (history h) @ [v],
                 currentIndex = currentIndex h + 1\<rparr>)
    \<and> (v \<noteq> state h \<longrightarrow>
          (\<exists>h'. setState h x = Inr h'
                \<and> length (history h') = currentIndex h + 2
                \<and> currentIndex h' = length (history h') - 1
                \<and> take (currentIndex h + 1) (history h') = take (currentIndex h + 1) (history h)
                \<and> state h' = v))"
  using assms by (auto simp: setState_def Let_def wf_store_def state_def nth_append min_def)

theorem setState_coalescing_witness:
  "setState \<lparr>history = [1::nat, 2, 3], currentIndex = 1\<rparr> (Value 2 :: (unit, nat) new_state)
     = Inr \<lparr>history = [1, 2, 3], currentIndex = 1\<rparr>
   \<and> setState \<lparr>history = [1::nat, 2, 3], currentIndex = 1\<rparr>
        (Updater (\<lambda>n. Inr (n + 3)) :: (unit, nat) new_state)
     = Inr \<lparr>history = [1, 2, 5], currentIndex = 2\<rparr>"
  using setState_coalescing[of "\<lparr>history = [1::nat, 2, 3], currentIndex = 1\<rparr>"
          "Value 2 :: (unit, nat) new_state" 2]
        setState_coalescing[of "\<lparr>history = [1::nat, 2, 3], currentIndex = 1\<rparr>"
          "Updater (\<lambda>n. Inr (n + 3)) :: (unit, nat) new_state" 5]
  by (simp add: state_def wf_store_def)

section \<open>Pose-image objects\<close>

lemma keys_replace_value: "map fst (replace_value m k v) = map fst m"
  by (induction m) auto

lemma replace_value_nonempty: "m \<noteq> [] \<Longrightarrow> replace_value m k v \<noteq> []"
  by (cases m) (auto split: if_splits)

lemma insert_index_nonempty: "insert_index m k v \<noteq> []"
  by (cases m) (auto split: if_splits)

lemma assign_nonempty: "assign m k v \<noteq> []"
proof (cases "k \<in> set (map fst m)")
  case True
  then have "m \<noteq> []" by auto
  with True show ?thesis by (simp add: assign_def replace_value_nonempty)
next
  case False
  then show ?thesis by (simp add: assign_def insert_index_nonempty)
qed

text \<open>Without integer-like keys the key order is the order of first insertion.\<close>

lemma keys_assign_plain:
  "\<not> integer_like k \<Longrightarrow>
   map fst (assign m k v) = (if k \<in> set (map fst m) then map fst m else map fst m @ [k])"
  by (simp add: assign_def keys_replace_value)

lemma keys_written:
  "\<forall>k \<in> set (map fst ws). \<not> integer_like k \<Longrightarrow>
   map fst (written ws) = rev (remdups (rev (map fst ws)))"
proof (induction ws rule: rev_induct)
  case Nil
  then show ?case by (simp add: written_def)
next
  case (snoc w ws)
  obtain k v where w: "w = (k, v)" by (cases w)
  from snoc.prems have plain: "\<not> integer_like k"
    and rest: "\<forall>k \<in> set (map fst ws). \<not> integer_like k"
    by (simp_all add: w)
  have step: "written (ws @ [w]) = assign (written ws) k v"
    by (simp add: written_def w)
  have keys: "set (map fst (written ws)) = set (map fst ws)"
    using snoc.IH[OF rest] by (metis set_remdups set_rev)
  show ?case
    unfolding step keys_assign_plain[OF plain] keys
    using snoc.IH[OF rest] by (simp add: w)
qed

lemma last_remdups: "xs \<noteq> [] \<Longrightarrow> last (remdups xs) = last xs"
proof (induction xs)
  case Nil
  then show ?case by simp
next
  case (Cons x xs)
  show ?case
  proof (cases "xs = []")
    case True
    then show ?thesis by simp
  next
    case False
    with Cons.IH have "last (remdups xs) = last xs" by simp
    moreover have "remdups xs \<noteq> []" using False by simp
    ultimately show ?thesis using False by simp
  qed
qed

lemma first_written_key:
  assumes "ws \<noteq> []" "\<forall>k \<in> set (map fst ws). \<not> integer_like k"
  shows "written ws \<noteq> []" "fst (hd (written ws)) = fst (hd ws)"
proof -
  have keys: "map fst (written ws) = rev (remdups (rev (map fst ws)))"
    using assms(2) by (rule keys_written)
  have ne: "rev (map fst ws) \<noteq> []" using assms(1) by simp
  then have "remdups (rev (map fst ws)) \<noteq> []" by simp
  with keys show w: "written ws \<noteq> []" by auto
  have "hd (map fst (written ws)) = last (remdups (rev (map fst ws)))"
    unfolding keys using ne by (simp add: hd_rev)
  also have "\<dots> = last (rev (map fst ws))" using ne by (rule last_remdups)
  also have "\<dots> = hd (map fst ws)" using assms(1) by (simp add: last_rev)
  finally show "fst (hd (written ws)) = fst (hd ws)"
    using w assms(1) by (simp add: hd_map)
qed

text \<open>The poses the pose panel offers are neither integer-like nor names of inherited
  members; an integer-like key is enumerated before the keys written earlier.\<close>

lemma pose_instructions_plain:
  "list_all (\<lambda>p. p \<notin> set object_prototype_members \<and> \<not> integer_like p) POSE_INSTRUCTIONS"
  by (simp add: POSE_INSTRUCTIONS_def object_prototype_members_def integer_like_def is_digit_def)

lemma integer_like_key_first:
  "written [(''front'', ''X''), (''7'', ''Y'')] = [(''7'', ''Y''), (''front'', ''X'')]"
  "written [(''10'', ''X''), (''9'', ''Y''), (''07'', ''Z'')]
     = [(''9'', ''Y''), (''10'', ''X''), (''07'', ''Z'')]"
  by (simp_all add: written_def assign_def integer_like_def is_digit_def index_value_def)

section \<open>The displayed image\<close>

text \<open>
  Claim C9 (displayed-image derivation). With no layers the displayed image is the model
  image. Otherwise let \<open>L\<close> be the layer at \<open>currentOutfitIndex\<close>. If the active pose is
  a key of \<open>L\<close>'s pose images, the displayed image is the entry under that key. If it is
  not, and the pose is not the name of a member that every object inherits, the displayed
  image is the first value of \<open>L\<close>'s pose images, the entry under their first key
  (\<open>undefined\<close> if \<open>L\<close> has no pose image); when no key of \<open>L\<close> is integer-like, that
  first key is the first-inserted one: for pose images built by writing pairs in order,
  it is the key of the first pair. The source's remaining branch, a non-empty layer list
  whose index points outside it, gives the model image.
\<close>

theorem displayImageUrl_derivation:
  "(outfitHistory s = [] \<longrightarrow> displayImageUrl s = map_option Url (modelImageUrl s))
   \<and> (outfitHistory s \<noteq> [] \<and> currentOutfitIndex s < length (outfitHistory s) \<longrightarrow>
        (currentPose s \<in> fst ` set (poseImages (outfitHistory s ! currentOutfitIndex s)) \<longrightarrow>
            displayImageUrl s
              = map_option Url
                  (map_of (poseImages (outfitHistory s ! currentOutfitIndex s)) (currentPose s))
            \<and> displayImageUrl s \<noteq> None)
      \<and> (currentPose s \<notin> fst ` set (poseImages (outfitHistory s ! currentOutfitIndex s))
           \<and> currentPose s \<notin> set object_prototype_members
           \<and> poseImages (outfitHistory s ! currentOutfitIndex s) \<noteq> [] \<longrightarrow>
            displayImageUrl s =
              map_option Url
                (map_of (poseImages (outfitHistory s ! currentOutfitIndex s))
                   (fst (hd (poseImages (outfitHistory s ! currentOutfitIndex s)))))
            \<and> displayImageUrl s
                = Some (Url (snd (hd (poseImages (outfitHistory s ! currentOutfitIndex s)))))
            \<and> (\<forall>ws. ws \<noteq> [] \<and> (\<forall>k \<in> set (map fst ws). \<not> integer_like k)
                  \<and> poseImages (outfitHistory s ! currentOutfitIndex s) = written ws \<longrightarrow>
                  displayImageUrl s
                    = map_option Url
                        (map_of (poseImages (outfitHistory s ! currentOutfitIndex s))
                           (fst (hd ws)))))
      \<and> (currentPose s \<notin> set object_prototype_members
           \<and> poseImages (outfitHistory s ! currentOutfitIndex s) = [] \<longrightarrow>
            displayImageUrl s = None))
   \<and> (outfitHistory s \<noteq> [] \<and> \<not> currentOutfitIndex s < length (outfitHistory s) \<longrightarrow>
        displayImageUrl s = map_option Url (modelImageUrl s))"
proof -
  let ?m = "poseImages (outfitHistory s ! currentOutfitIndex s)"
  have present: "displayImageUrl s = map_option Url (map_of ?m (currentPose s))
      \<and> displayImageUrl s \<noteq> None"
    if "outfitHistory s \<noteq> []" "currentOutfitIndex s < length (outfitHistory s)"
       "currentPose s \<in> fst ` set ?m"
  proof -
    from that(3) obtain url where "map_of ?m (currentPose s) = Some url"
      by (metis map_of_eq_None_iff not_Some_eq)
    with that(1,2) show ?thesis
      by (simp add: displayImageUrl_def at_index_def get_property_def)
  qed
  have absent: "displayImageUrl s = (case ?m of [] \<Rightarrow> None | (k, url) # _ \<Rightarrow> Some (Url url))"
    if "outfitHistory s \<noteq> []" "currentOutfitIndex s < length (outfitHistory s)"
       "currentPose s \<notin> fst ` set ?m" "currentPose s \<notin> set object_prototype_members"
  proof -
    from that(3) have "map_of ?m (currentPose s) = None"
      by (simp add: map_of_eq_None_iff)
    with that(1,2,4) show ?thesis
      by (auto simp: displayImageUrl_def at_index_def get_property_def split: list.splits)
  qed
  have first: "displayImageUrl s = map_option Url (map_of ?m (fst (hd ?m)))
      \<and> displayImageUrl s = Some (Url (snd (hd ?m)))"
    if "outfitHistory s \<noteq> []" "currentOutfitIndex s < length (outfitHistory s)"
       "currentPose s \<notin> fst ` set ?m" "currentPose s \<notin> set object_prototype_members"
       "?m \<noteq> []"
    using absent[OF that(1,2,3,4)] that(5) by (cases ?m) auto
  have inserted: "displayImageUrl s = map_option Url (map_of ?m (fst (hd ws)))"
    if "outfitHistory s \<noteq> []" "currentOutfitIndex s < length (outfitHistory s)"
       "currentPose s \<notin> fst ` set ?m" "currentPose s \<notin> set object_prototype_members"
       "ws \<noteq> []" "\<forall>k \<in> set (map fst ws). \<not> integer_like k" "?m = written ws" for ws
  proof -
    from first_written_key[OF that(5,6)] that(7)
    have "?m \<noteq> []" "fst (hd ?m) = fst (hd ws)" by simp_all
    with first[OF that(1,2,3,4)] show ?thesis by simp
  qed
  have none: "displayImageUrl s = None"
    if "outfitHistory s \<noteq> []" "currentOutfitIndex s < length (outfitHistory s)"
       "currentPose s \<notin> set object_prototype_members" "?m = []"
    using absent[OF that(1,2) _ that(3)] that(4) by simp
  have out: "displayImageUrl s = map_option Url (modelImageUrl s)"
    if "\<not> currentOutfitIndex s < length (outfitHistory s)"
    using that by (simp add: displayImageUrl_def at_index_def)
  have empty: "displayImageUrl s = map_option Url (modelImageUrl s)" if "outfitHistory s = []"
    using that by (simp add: displayImageUrl_def)
  from present first inserted none out empty show ?thesis by blast
qed

theorem displayImageUrl_derivation_witness:
  "displayImageUrl initialEditorState = None
   \<and> displayImageUrl dressed_look = Some (Url ''Y'')
   \<and> displayImageUrl (dressed_look\<lparr>currentPose := ''jump''\<rparr>) = Some (Url ''X'')
   \<and> written [(''front'', ''X''), (''side'', ''Y'')] = [(''front'', ''X''), (''side'', ''Y'')]
   \<and> displayImageUrl (dressed_look\<lparr>currentOutfitIndex := 2\<rparr>) = Some (Url ''M'')"
proof -
  have plain: "\<not> integer_like ''front''" "\<not> integer_like ''side''"
    by (simp_all add: integer_like_def is_digit_def)
  have w: "written [(''front'', ''X''), (''side'', ''Y'')] = [(''front'', ''X''), (''side'', ''Y'')]"
    by (simp add: written_def assign_def plain)
  have members: "''jump'' \<notin> set object_prototype_members"
    by (simp add: object_prototype_members_def)
  from displayImageUrl_derivation[of initialEditorState]
    displayImageUrl_derivation[of dressed_look]
    displayImageUrl_derivation[of "dressed_look\<lparr>currentPose := ''jump''\<rparr>"]
    displayImageUrl_derivation[of "dressed_look\<lparr>currentOutfitIndex := 2\<rparr>"]
    members w
  show ?thesis
    by (simp add: initialEditorState_def dressed_look_def stashed_look_def)
qed

section \<open>Handlers: shared facts\<close>

lemma setEditorState_ok:
  assumes "wf_store (editorHistory a)" "f (editorState a) = Inr s'"
  shows "\<exists>h'. setEditorState a f = Inr (a\<lparr>editorHistory := h'\<rparr>)
    \<and> state h' = s' \<and> wf_store h'
    \<and> set (history h') \<subseteq> insert s' (set (history (editorHistory a)))
    \<and> (s' \<noteq> editorState a \<longrightarrow> state (undo h') = editorState a)"
proof -
  from assms(2) have r: "resolve (Updater f) (state (editorHistory a)) = Inr s'"
    by (simp add: editorState_def)
  then obtain h' where h': "setState (editorHistory a) (Updater f) = Inr h'"
    by (cases "s' = state (editorHistory a)") (simp_all add: setState_def Let_def)
  have "setEditorState a f = Inr (a\<lparr>editorHistory := h'\<rparr>)"
    by (simp add: setEditorState_def h')
  moreover have "state h' = s'" using assms(1) h' r by (rule state_setState)
  moreover have "wf_store h'" using assms(1) h' by (rule wf_setState)
  moreover have "set (history h') \<subseteq> insert s' (set (history (editorHistory a)))"
    using h' r by (rule set_history_setState)
  moreover have "state (undo h') = editorState a" if "s' \<noteq> editorState a"
    unfolding editorState_def
    using assms(1) h' r that[unfolded editorState_def] by (rule undo_setState_grown)
  ultimately show ?thesis by blast
qed

lemma editorState_update [simp]: "editorState (a\<lparr>editorHistory := h\<rparr>) = state h"
  by (simp add: editorState_def)

lemma editorState_other [simp]:
  "editorState (a\<lparr>loadingMessage := x\<rparr>) = editorState a"
  "editorState (a\<lparr>isLoading := y\<rparr>) = editorState a"
  "editorState (a\<lparr>error := z\<rparr>) = editorState a"
  "editorState (a\<lparr>wardrobe := w\<rparr>) = editorState a"
  "editorState (a\<lparr>repatternTarget := t\<rparr>) = editorState a"
  by (simp_all add: editorState_def)

lemma setEditorState_total:
  "f (editorState a) = Inr s' \<Longrightarrow> \<exists>a'. setEditorState a f = Inr a'"
  by (simp add: setEditorState_def setState_def editorState_def Let_def)

lemma editorState_clearSuggestions [simp]: "editorState (clearSuggestions a) = editorState a"
  by (simp add: editorState_def clearSuggestions_def)

lemma editorHistory_clearSuggestions [simp]:
  "editorHistory (clearSuggestions a) = editorHistory a"
  by (simp add: clearSuggestions_def)

lemma wf_loaded: "wf_store (editorHistory (loaded s))"
  by (simp add: loaded_def wf_resetState)

lemma editorState_loaded: "editorState (loaded s) = s"
  by (simp add: loaded_def resetState_def state_def)

lemma idle_loaded: "\<not> isBusy (loaded s)"
  by (simp add: loaded_def isBusy_def initialAppState_def)

text \<open>The branches of the asynchronous handlers, one case each.\<close>

lemma tryOn_cases:
  obtains (failed) m where
      "gateway e (GenerateVirtualTryOnImage u gf) = Inl m"
      "tryOn e a u name gf info made =
         Returns (finally_block (catch_block e m ''Failed to apply garment''
                    (a\<lparr>loadingMessage := ''Adding '' @ name @ ''...''\<rparr>)))
           (made @ [GenerateVirtualTryOnImage u gf])"
  | (installed) x a' where
      "gateway e (GenerateVirtualTryOnImage u gf) = Inr x"
      "setEditorState (a\<lparr>loadingMessage := ''Adding '' @ name @ ''...''\<rparr>)
         (appendLayerUpdater \<lparr>garment = Some info,
            poseImages = [(currentPose (editorState a), x)]\<rparr>) = Inr a'"
      "tryOn e a u name gf info made =
         Returns (finally_block (a'\<lparr>wardrobe := wardrobeUpdater info (wardrobe a')\<rparr>))
           (made @ [GenerateVirtualTryOnImage u gf])"
  | (outside) x where
      "gateway e (GenerateVirtualTryOnImage u gf) = Inr x"
      "tryOn e a u name gf info made = Unrepresentable"
proof (cases "gateway e (GenerateVirtualTryOnImage u gf)")
  case (Inl m)
  then show ?thesis by (intro failed[of m]) (simp_all add: tryOn_def Let_def)
next
  case (Inr x)
  show ?thesis
  proof (cases "setEditorState (a\<lparr>loadingMessage := ''Adding '' @ name @ ''...''\<rparr>)
         (appendLayerUpdater \<lparr>garment = Some info,
            poseImages = [(currentPose (editorState a), x)]\<rparr>)")
    case (Inl fault)
    with Inr show ?thesis by (intro outside[of x]) (simp_all add: tryOn_def Let_def)
  next
    case inst: (Inr a')
    with Inr show ?thesis by (intro installed[of x a']) (simp_all add: tryOn_def Let_def)
  qed
qed

lemma handleGarmentSelect_cases:
  obtains (guard) "\<not> truthy (displayImageUrl (editorState a)) \<or> isBusy a"
      "handleGarmentSelect e a garmentFile garmentInfo enhance = Returns a []"
  | (shortcut) u where "displayImageUrl (editorState a) = Some u" "truthy (Some u)"
      "\<not> isBusy a" "redoShortcut (editorState a) garmentInfo"
      "handleGarmentSelect e a garmentFile garmentInfo enhance =
         (case setEditorState (clearSuggestions a) advanceUpdater of
            Inl fault \<Rightarrow> Unrepresentable | Inr a' \<Rightarrow> Returns a' [])"
  | (cleanup_failed) u m where "displayImageUrl (editorState a) = Some u" "truthy (Some u)"
      "\<not> isBusy a"
      "gateway e (CleanupGarmentImage garmentFile) = Inl m"
      "handleGarmentSelect e a garmentFile garmentInfo enhance =
         Returns (finally_block (catch_block e m ''Failed to apply garment''
                    ((clearSuggestions a)\<lparr>error := None, isLoading := True,
                       loadingMessage := ''Enhancing '' @ item_name garmentInfo @ ''...''\<rparr>)))
           [CleanupGarmentImage garmentFile]"
  | (enhanced) u ef where "displayImageUrl (editorState a) = Some u" "truthy (Some u)"
      "\<not> isBusy a" "\<not> redoShortcut (editorState a) garmentInfo"
      "gateway e (CleanupGarmentImage garmentFile) = Inr ef"
      "handleGarmentSelect e a garmentFile garmentInfo enhance =
         tryOn e ((clearSuggestions a)\<lparr>error := None, isLoading := True,
                    loadingMessage := ''Enhancing '' @ item_name garmentInfo @ ''...''\<rparr>)
           u (item_name garmentInfo) ef
           (garmentInfo\<lparr>item_url := createObjectURL e ef\<rparr>) [CleanupGarmentImage garmentFile]"
  | (plain) u where "displayImageUrl (editorState a) = Some u" "truthy (Some u)"
      "\<not> isBusy a" "\<not> redoShortcut (editorState a) garmentInfo"
      "handleGarmentSelect e a garmentFile garmentInfo enhance =
         tryOn e ((clearSuggestions a)\<lparr>error := None, isLoading := True\<rparr>)
           u (item_name garmentInfo) garmentFile garmentInfo []"
proof (cases "\<not> truthy (displayImageUrl (editorState a)) \<or> isBusy a")
  case True
  then show ?thesis by (intro guard) (auto simp: handleGarmentSelect_def)
next
  case False
  then obtain u where u: "displayImageUrl (editorState a) = Some u" "truthy (Some u)"
    "\<not> isBusy a"
    by (cases "displayImageUrl (editorState a)") auto
  show ?thesis
  proof (cases "redoShortcut (editorState a) garmentInfo")
    case True
    with u show ?thesis
      by (intro shortcut[of u]) (simp_all add: handleGarmentSelect_def)
  next
    case no: False
    show ?thesis
    proof (cases enhance)
      case True
      show ?thesis
      proof (cases "gateway e (CleanupGarmentImage garmentFile)")
        case (Inl m)
        with u no True show ?thesis
          by (intro cleanup_failed[of u m]) (simp_all add: handleGarmentSelect_def)
      next
        case (Inr ef)
        with u no True show ?thesis
          by (intro enhanced[of u ef]) (simp_all add: handleGarmentSelect_def)
      qed
    next
      case False
      with u no show ?thesis
        by (intro plain[of u]) (simp_all add: handleGarmentSelect_def)
    qed
  qed
qed

lemma handlePoseSelect_cases:
  obtains (guard) "isBusy a \<or> outfitHistory (editorState a) = [] \<or> newPose = currentPose (editorState a)"
      "handlePoseSelect e a newPose = Returns a []"
  | (thrown) "\<not> isBusy a"
      "at_index (outfitHistory (editorState a)) (int (currentOutfitIndex (editorState a))) = None"
      "handlePoseSelect e a newPose = Throws (clearSuggestions a) []"
  | (cached) l where "\<not> isBusy a" "outfitHistory (editorState a) \<noteq> []"
      "at_index (outfitHistory (editorState a)) (int (currentOutfitIndex (editorState a))) = Some l"
      "truthy (get_property (poseImages l) newPose)"
      "handlePoseSelect e a newPose =
         (case setEditorState (clearSuggestions a) (\<lambda>prev. Inr (prev\<lparr>currentPose := newPose\<rparr>)) of
            Inl fault \<Rightarrow> Unrepresentable | Inr a' \<Rightarrow> Returns a' [])"
  | (no_base) "\<not> isBusy a" "handlePoseSelect e a newPose = Returns (clearSuggestions a) []"
  | (failed) b m where "\<not> isBusy a"
      "gateway e (GeneratePoseVariation b newPose) = Inl m"
      "handlePoseSelect e a newPose =
         Returns (finally_block (catch_block e m ''Failed to change pose''
                    ((clearSuggestions a)\<lparr>error := None, isLoading := True,
                       loadingMessage := ''Changing pose...''\<rparr>)))
           [GeneratePoseVariation b newPose]"
  | (generated) l b x where "\<not> isBusy a" "outfitHistory (editorState a) \<noteq> []"
      "at_index (outfitHistory (editorState a)) (int (currentOutfitIndex (editorState a))) = Some l"
      "gateway e (GeneratePoseVariation b newPose) = Inr x"
      "handlePoseSelect e a newPose =
         (case setEditorState ((clearSuggestions a)\<lparr>error := None, isLoading := True,
                  loadingMessage := ''Changing pose...''\<rparr>) (poseUpdater newPose x) of
            Inl fault \<Rightarrow> Unrepresentable
          | Inr a' \<Rightarrow> Returns (finally_block a') [GeneratePoseVariation b newPose])"
proof (cases "isBusy a \<or> outfitHistory (editorState a) = [] \<or> newPose = currentPose (editorState a)")
  case True
  then show ?thesis by (intro guard) (auto simp: handlePoseSelect_def)
next
  case False
  then have g: "\<not> isBusy a" "outfitHistory (editorState a) \<noteq> []"
    "newPose \<noteq> currentPose (editorState a)" by simp_all
  show ?thesis
  proof (cases "at_index (outfitHistory (editorState a)) (int (currentOutfitIndex (editorState a)))")
    case None
    with g show ?thesis by (intro thrown) (simp_all add: handlePoseSelect_def)
  next
    case (Some l)
    show ?thesis
    proof (cases "truthy (get_property (poseImages l) newPose)")
      case True
      with g Some show ?thesis by (intro cached[of l]) (simp_all add: handlePoseSelect_def)
    next
      case nt: False
      show ?thesis
      proof (cases "map snd (poseImages l)")
        case Nil
        with g Some nt show ?thesis by (intro no_base) (simp_all add: handlePoseSelect_def)
      next
        case (Cons b rest)
        show ?thesis
        proof (cases "b = []")
          case True
          with g Some nt Cons show ?thesis
            by (intro no_base) (simp_all add: handlePoseSelect_def)
        next
          case nb: False
          show ?thesis
          proof (cases "gateway e (GeneratePoseVariation b newPose)")
            case (Inl m)
            with g Some nt Cons nb show ?thesis
              by (intro failed[of b m]) (simp_all add: handlePoseSelect_def)
          next
            case (Inr x)
            with g Some nt Cons nb show ?thesis
              by (intro generated[of l b x]) (simp_all add: handlePoseSelect_def)
          qed
        qed
      qed
    qed
  qed
qed

lemma handleBackgroundChange_cases:
  obtains (guard) "\<not> truthy (displayImageUrl (editorState a)) \<or> isBusy a"
      "handleBackgroundChange e a p = Returns a []"
  | (failed) u m where "displayImageUrl (editorState a) = Some u" "truthy (Some u)"
      "\<not> isBusy a"
      "gateway e (GenerateBackground u p) = Inl m"
      "handleBackgroundChange e a p =
         Returns (finally_block (catch_block e m ''Failed to change background''
                    ((clearSuggestions a)\<lparr>error := None, isLoading := True,
                       loadingMessage := ''Generating new scene...''\<rparr>)))
           [GenerateBackground u p]"
  | (generated) u x where "displayImageUrl (editorState a) = Some u" "truthy (Some u)"
      "\<not> isBusy a"
      "gateway e (GenerateBackground u p) = Inr x"
      "handleBackgroundChange e a p =
         (case setEditorState ((clearSuggestions a)\<lparr>error := None, isLoading := True,
                  loadingMessage := ''Generating new scene...''\<rparr>) (backgroundUpdater x) of
            Inl fault \<Rightarrow> Unrepresentable
          | Inr a' \<Rightarrow> Returns (finally_block a') [GenerateBackground u p])"
proof (cases "\<not> truthy (displayImageUrl (editorState a)) \<or> isBusy a")
  case True
  then show ?thesis by (intro guard) (auto simp: handleBackgroundChange_def)
next
  case False
  then obtain u where u: "displayImageUrl (editorState a) = Some u" "truthy (Some u)"
    "\<not> isBusy a"
    by (cases "displayImageUrl (editorState a)") auto
  show ?thesis
  proof (cases "gateway e (GenerateBackground u p)")
    case (Inl m)
    with u show ?thesis
      by (intro failed[of u m]) (simp_all add: handleBackgroundChange_def)
  next
    case (Inr x)
    with u show ?thesis
      by (intro generated[of u x]) (simp_all add: handleBackgroundChange_def)
  qed
qed

lemma handleRepattern_cases:
  obtains (guard)
      "\<not> truthy (displayImageUrl (editorState a)) \<or> repatternTarget a = None \<or> isBusy a"
      "handleRepattern e a p = Returns a []"
  | (failed) u li name m where "displayImageUrl (editorState a) = Some u" "truthy (Some u)"
      "\<not> isBusy a" "repatternTarget a = Some (li, name)"
      "gateway e (RepatternGarment u name p) = Inl m"
      "handleRepattern e a p =
         Returns (finally_block (catch_block e m ''Failed to repattern garment''
                    (a\<lparr>repatternTarget := None, error := None, isLoading := True,
                       loadingMessage := ''Applying new pattern to '' @ name @ ''...''\<rparr>)))
           [RepatternGarment u name p]"
  | (generated) u li name x where "displayImageUrl (editorState a) = Some u" "truthy (Some u)"
      "\<not> isBusy a" "repatternTarget a = Some (li, name)"
      "gateway e (RepatternGarment u name p) = Inr x"
      "handleRepattern e a p =
         (case setEditorState (a\<lparr>repatternTarget := None, error := None, isLoading := True,
                  loadingMessage := ''Applying new pattern to '' @ name @ ''...''\<rparr>)
                 (repatternUpdater x) of
            Inl fault \<Rightarrow> Unrepresentable
          | Inr a' \<Rightarrow> Returns (finally_block a') [RepatternGarment u name p])"
proof (cases "\<not> truthy (displayImageUrl (editorState a)) \<or> repatternTarget a = None \<or> isBusy a")
  case True
  then show ?thesis by (intro guard) (auto simp: handleRepattern_def)
next
  case False
  then obtain u t where u: "displayImageUrl (editorState a) = Some u" "truthy (Some u)"
    "\<not> isBusy a" and target: "repatternTarget a = Some t"
    by (cases "displayImageUrl (editorState a)"; cases "repatternTarget a") auto
  obtain li name where t: "t = (li, name)" by (cases t)
  show ?thesis
  proof (cases "gateway e (RepatternGarment u name p)")
    case (Inl m)
    with u target t show ?thesis
      by (intro failed[of u li name m]) (simp_all add: handleRepattern_def)
  next
    case (Inr x)
    with u target t show ?thesis
      by (intro generated[of u li name x]) (simp_all add: handleRepattern_def)
  qed
qed

section \<open>Applying a garment: the redo shortcut\<close>

text \<open>
  Claim C4 (redo shortcut). \<open>handleGarmentSelect\<close> runs when an image is displayed and the
  application is not busy. If then the layer at \<open>currentOutfitIndex + 1\<close> of the existing
  layer list exists and carries a garment with the id of the garment being applied, the
  handler makes no Gateway call, and in the snapshot it installs \<open>currentOutfitIndex\<close> is
  one more while the layer list, the model image and the pose are the same; the active
  layer is now that kept layer.
\<close>

theorem redo_shortcut:
  assumes wf: "wf_store (editorHistory a)"
    and idle: "\<not> isBusy a"
    and shown: "truthy (displayImageUrl (editorState a))"
    and nxt: "at_index (outfitHistory (editorState a))
                (int (currentOutfitIndex (editorState a)) + 1) = Some l"
    and same: "garment l = Some g" "item_id g = item_id garmentInfo"
  shows "\<exists>a'. handleGarmentSelect e a garmentFile garmentInfo enhance = Returns a' []
    \<and> currentOutfitIndex (editorState a') = currentOutfitIndex (editorState a) + 1
    \<and> outfitHistory (editorState a') = outfitHistory (editorState a)
    \<and> modelImageUrl (editorState a') = modelImageUrl (editorState a)
    \<and> currentPose (editorState a') = currentPose (editorState a)
    \<and> at_index (outfitHistory (editorState a')) (int (currentOutfitIndex (editorState a'))) = Some l"
proof -
  from shown obtain u where u: "displayImageUrl (editorState a) = Some u"
    by (cases "displayImageUrl (editorState a)") auto
  let ?a1 = "clearSuggestions a"
  let ?s' = "(editorState a)\<lparr>currentOutfitIndex := currentOutfitIndex (editorState a) + 1\<rparr>"
  have wf1: "wf_store (editorHistory ?a1)" using wf by simp
  have upd: "advanceUpdater (editorState ?a1) = Inr ?s'"
    by (simp add: advanceUpdater_def)
  from setEditorState_ok[of ?a1 advanceUpdater ?s', OF wf1 upd]
  obtain h' where h': "setEditorState ?a1 advanceUpdater = Inr (?a1\<lparr>editorHistory := h'\<rparr>)"
    and st: "state h' = ?s'"
    by blast
  have "handleGarmentSelect e a garmentFile garmentInfo enhance = Returns (?a1\<lparr>editorHistory := h'\<rparr>) []"
    using u shown idle nxt same h' by (simp add: handleGarmentSelect_def redoShortcut_def)
  moreover have "at_index (outfitHistory ?s') (int (currentOutfitIndex ?s')) = Some l"
    using nxt by (simp add: add.commute)
  ultimately show ?thesis using st by auto
qed

theorem redo_shortcut_witness:
  "calls (handleGarmentSelect (mock_env (\<lambda>c. Inr ''Z'')) (loaded stashed_look) ''g1.png'' g1 False) = []
   \<and> map_option (\<lambda>a'. currentOutfitIndex (editorState a'))
        (after (handleGarmentSelect (mock_env (\<lambda>c. Inr ''Z'')) (loaded stashed_look) ''g1.png'' g1 False))
      = Some 1"
proof -
  have shown: "truthy (displayImageUrl (editorState (loaded stashed_look)))"
    by (simp add: editorState_loaded displayImageUrl_def at_index_def get_property_def
        stashed_look_def)
  have nxt: "at_index (outfitHistory (editorState (loaded stashed_look)))
      (int (currentOutfitIndex (editorState (loaded stashed_look))) + 1)
     = Some \<lparr>garment = Some g1, poseImages = [(''front'', ''X''), (''side'', ''Y'')]\<rparr>"
    by (simp add: editorState_loaded at_index_def stashed_look_def)
  from redo_shortcut[OF wf_loaded idle_loaded shown nxt, of g1 g1
      "mock_env (\<lambda>c. Inr ''Z'')" "''g1.png''" False]
  show ?thesis
    by (auto simp: editorState_loaded stashed_look_def)
qed

lemma removeLayerUpdater_in_range:
  assumes "0 < layerIndex" "layerIndex \<le> int (length (outfitHistory s))"
    and "poseImages (outfitHistory s ! nat (layerIndex - 1)) \<noteq> []"
  shows "removeLayerUpdater layerIndex s =
     Inr (s\<lparr>outfitHistory := take (nat layerIndex) (outfitHistory s),
            currentOutfitIndex := nat (layerIndex - 1),
            currentPose :=
              (if has_property (poseImages (outfitHistory s ! nat (layerIndex - 1))) (currentPose s)
               then currentPose s
               else fst (hd (poseImages (outfitHistory s ! nat (layerIndex - 1)))))\<rparr>)"
proof -
  let ?L = "outfitHistory s ! nat (layerIndex - 1)"
  have sl: "slice0 (outfitHistory s) layerIndex = take (nat layerIndex) (outfitHistory s)"
    using assms(1) by (simp add: slice0_def)
  have at: "at_index (take (nat layerIndex) (outfitHistory s)) (layerIndex - 1) = Some ?L"
    using assms(1,2) by (simp add: at_index_def)
  obtain k v rest where m: "poseImages ?L = (k, v) # rest"
    using assms(3) by (cases "poseImages ?L") auto
  show ?thesis
    by (simp add: removeLayerUpdater_def sl at m)
qed

section \<open>Removing a layer\<close>

text \<open>
  Claim C5 (\<open>removeLayer\<close>). \<open>handleRemoveLayer\<close> runs when the application is not busy.
  Take a layer index greater than 0 within the active layers of a snapshot (at most
  \<open>currentOutfitIndex\<close>, which indexes the layer list), where the layer below it has a pose
  image and the active pose is not the name of a member that every object inherits (the
  test \<open>prev.currentPose in lastValidLayer.poseImages\<close> also finds those). Then the handler
  makes no Gateway call and installs a snapshot whose layer list is the old one cut to the
  layers strictly before \<open>layerIndex\<close>, whose \<open>currentOutfitIndex\<close> is \<open>layerIndex - 1\<close>,
  and whose pose is the old pose if the new active layer has an image for it and otherwise
  the first key of that layer's pose images, in either case a key of that layer. The
  removed layer and all later ones are gone from the layer list; the snapshot before the
  removal is the one \<open>undo\<close> returns to.
\<close>

theorem removeLayer_semantics:
  assumes wf: "wf_store (editorHistory a)"
    and idle: "\<not> isBusy a"
    and pos: "0 < layerIndex"
    and active: "layerIndex \<le> int (currentOutfitIndex (editorState a))"
    and valid: "currentOutfitIndex (editorState a) < length (outfitHistory (editorState a))"
    and poses: "poseImages (outfitHistory (editorState a) ! nat (layerIndex - 1)) \<noteq> []"
    and pose: "currentPose (editorState a) \<notin> set object_prototype_members"
  shows "\<exists>a'. handleRemoveLayer a layerIndex = Returns a' []
    \<and> outfitHistory (editorState a') = take (nat layerIndex) (outfitHistory (editorState a))
    \<and> length (outfitHistory (editorState a')) = nat layerIndex
    \<and> currentOutfitIndex (editorState a') = nat (layerIndex - 1)
    \<and> outfitHistory (editorState a') ! currentOutfitIndex (editorState a')
        = outfitHistory (editorState a) ! nat (layerIndex - 1)
    \<and> currentPose (editorState a')
        = (if currentPose (editorState a)
                \<in> fst ` set (poseImages (outfitHistory (editorState a) ! nat (layerIndex - 1)))
           then currentPose (editorState a)
           else fst (hd (poseImages (outfitHistory (editorState a) ! nat (layerIndex - 1)))))
    \<and> currentPose (editorState a')
        \<in> fst ` set (poseImages (outfitHistory (editorState a') ! currentOutfitIndex (editorState a')))
    \<and> modelImageUrl (editorState a') = modelImageUrl (editorState a)
    \<and> state (undo (editorHistory a')) = editorState a"
proof -
  let ?s = "editorState a"
  let ?L = "outfitHistory ?s ! nat (layerIndex - 1)"
  let ?p = "if currentPose ?s \<in> fst ` set (poseImages ?L) then currentPose ?s
            else fst (hd (poseImages ?L))"
  let ?s' = "?s\<lparr>outfitHistory := take (nat layerIndex) (outfitHistory ?s),
               currentOutfitIndex := nat (layerIndex - 1), currentPose := ?p\<rparr>"
  have le: "layerIndex \<le> int (length (outfitHistory ?s))" using active valid by simp
  have own: "has_property (poseImages ?L) (currentPose ?s)
      = (currentPose ?s \<in> fst ` set (poseImages ?L))"
    using pose by (simp add: has_property_def)
  have upd: "removeLayerUpdater layerIndex ?s = Inr ?s'"
    using removeLayerUpdater_in_range[OF pos le poses] unfolding own .
  from setEditorState_ok[of a "removeLayerUpdater layerIndex" ?s', OF wf upd]
  obtain h' where h': "setEditorState a (removeLayerUpdater layerIndex) = Inr (a\<lparr>editorHistory := h'\<rparr>)"
    and st: "state h' = ?s'"
    and un: "?s' \<noteq> ?s \<longrightarrow> state (undo h') = ?s"
    by blast
  have ret: "handleRemoveLayer a layerIndex = Returns (a\<lparr>editorHistory := h'\<rparr>) []"
    using idle h' by (simp add: handleRemoveLayer_def)
  have "currentOutfitIndex ?s' \<noteq> currentOutfitIndex ?s" using pos active by simp
  then have "?s' \<noteq> ?s" by metis
  with un have undo: "state (undo h') = ?s" by blast
  have len: "length (outfitHistory ?s') = nat layerIndex" using le pos by simp
  have nth: "outfitHistory ?s' ! currentOutfitIndex ?s' = ?L" using pos by simp
  have key: "?p \<in> fst ` set (poseImages ?L)"
    using poses by (cases "poseImages ?L") auto
  show ?thesis
    using ret st undo len nth key by (intro exI[of _ "a\<lparr>editorHistory := h'\<rparr>"]) simp
qed

lemma in_removeControls:
  "i \<in> set (removeControls layers) \<longleftrightarrow> 1 \<le> i \<and> i < int (length layers)"
  unfolding removeControls_def
proof
  assume "i \<in> set (map int (filter (\<lambda>index. index > 0) [0..<length layers]))"
  then show "1 \<le> i \<and> i < int (length layers)" by auto
next
  assume a: "1 \<le> i \<and> i < int (length layers)"
  then have "nat i \<in> set (filter (\<lambda>index. index > 0) [0..<length layers])" by auto
  then have "int (nat i) \<in> int ` set (filter (\<lambda>index. index > 0) [0..<length layers])"
    by (rule imageI)
  with a show "i \<in> set (map int (filter (\<lambda>index. index > 0) [0..<length layers]))"
    by simp
qed

lemma length_activeOutfitLayers:
  "length (activeOutfitLayers s) = min (length (outfitHistory s)) (currentOutfitIndex s + 1)"
  by (simp add: activeOutfitLayers_def slice0_def nat_add_distrib)

text \<open>
  Claim C10 (the accesses of \<open>removeLayer\<close>). In a snapshot all of whose layers have a
  pose image and whose \<open>currentOutfitIndex\<close> indexes the layer list, for every
  \<open>layerIndex\<close> from 1 to \<open>currentOutfitIndex\<close> the two reads of the updater are defined:
  the layer at \<open>layerIndex - 1\<close> of the cut list and the first key of its pose images; the
  updater returns a snapshot. The handler has no bounds check of its own: with
  \<open>layerIndex = 0\<close> the read of the layer is \<open>undefined\<close> and a \<open>TypeError\<close> leaves the
  handler. Index 0 is kept away by the caller alone: OutfitStack offers the remove control
  exactly for the indices from 1 to \<open>currentOutfitIndex\<close> that are inside the layer list.
\<close>

theorem removeLayer_accesses_defined:
  assumes poses: "\<forall>l \<in> set (outfitHistory s). poseImages l \<noteq> []"
  shows "(1 \<le> layerIndex \<and> layerIndex \<le> int (currentOutfitIndex s)
          \<and> currentOutfitIndex s < length (outfitHistory s) \<longrightarrow>
            (\<exists>L k rest s'.
               at_index (slice0 (outfitHistory s) layerIndex) (layerIndex - 1) = Some L
               \<and> map fst (poseImages L) = k # rest
               \<and> removeLayerUpdater layerIndex s = Inr s'))
    \<and> set (removeControls (activeOutfitLayers s))
        = {i. 1 \<le> i \<and> i \<le> int (currentOutfitIndex s) \<and> i < int (length (outfitHistory s))}
    \<and> removeLayerUpdater 0 s = Inl TypeError
    \<and> (\<not> isBusy a \<longrightarrow> handleRemoveLayer a 0 = Throws a [])"
proof -
  have defined: "\<exists>L k rest s'.
      at_index (slice0 (outfitHistory s) layerIndex) (layerIndex - 1) = Some L
      \<and> map fst (poseImages L) = k # rest
      \<and> removeLayerUpdater layerIndex s = Inr s'"
    if "1 \<le> layerIndex" "layerIndex \<le> int (currentOutfitIndex s)"
       "currentOutfitIndex s < length (outfitHistory s)"
  proof -
    let ?L = "outfitHistory s ! nat (layerIndex - 1)"
    have pos: "0 < layerIndex" and le: "layerIndex \<le> int (length (outfitHistory s))"
      using that by simp_all
    have "?L \<in> set (outfitHistory s)" using that by simp
    with poses have ne: "poseImages ?L \<noteq> []" by simp
    then obtain k v rest where m: "poseImages ?L = (k, v) # rest"
      by (cases "poseImages ?L") auto
    have 1: "at_index (slice0 (outfitHistory s) layerIndex) (layerIndex - 1) = Some ?L"
      using pos le by (simp add: slice0_def at_index_def)
    have 2: "map fst (poseImages ?L) = k # map fst rest" using m by simp
    note 3 = removeLayerUpdater_in_range[OF pos le ne]
    show ?thesis
      by (intro exI conjI) (rule 1, rule 2, rule 3)
  qed
  have controls: "set (removeControls (activeOutfitLayers s))
        = {i. 1 \<le> i \<and> i \<le> int (currentOutfitIndex s) \<and> i < int (length (outfitHistory s))}"
    by (auto simp: in_removeControls length_activeOutfitLayers)
  have zero: "removeLayerUpdater 0 s = Inl TypeError"
    by (simp add: removeLayerUpdater_def slice0_def at_index_def)
  have thrown: "handleRemoveLayer a 0 = Throws a []" if "\<not> isBusy a"
    using that
    by (simp add: handleRemoveLayer_def setEditorState_def setState_def removeLayerUpdater_def
        slice0_def at_index_def)
  from defined controls zero thrown show ?thesis by blast
qed

theorem removeLayer_semantics_witness:
  "calls (handleRemoveLayer (loaded dressed_look) 1) = []
   \<and> map_option (\<lambda>a'. (map garment (outfitHistory (editorState a')),
                         currentOutfitIndex (editorState a'), currentPose (editorState a')))
        (after (handleRemoveLayer (loaded dressed_look) 1))
      = Some ([None], 0, ''front'')"
proof -
  have hyps: "0 < (1::int)"
    "1 \<le> int (currentOutfitIndex (editorState (loaded dressed_look)))"
    "currentOutfitIndex (editorState (loaded dressed_look))
       < length (outfitHistory (editorState (loaded dressed_look)))"
    "poseImages (outfitHistory (editorState (loaded dressed_look)) ! nat (1 - 1)) \<noteq> []"
    "currentPose (editorState (loaded dressed_look)) \<notin> set object_prototype_members"
    by (simp_all add: editorState_loaded dressed_look_def stashed_look_def
        object_prototype_members_def)
  from removeLayer_semantics[OF wf_loaded idle_loaded hyps]
  show ?thesis
    by (auto simp: editorState_loaded dressed_look_def stashed_look_def)
qed

theorem removeLayer_accesses_defined_witness:
  "(\<exists>s'. removeLayerUpdater 1 dressed_look = Inr s')
   \<and> set (removeControls (activeOutfitLayers dressed_look)) = {1}
   \<and> removeLayerUpdater 0 dressed_look = Inl TypeError
   \<and> handleRemoveLayer (loaded dressed_look) 0 = Throws (loaded dressed_look) []"
proof -
  have poses: "\<forall>l \<in> set (outfitHistory dressed_look). poseImages l \<noteq> []"
    by (simp add: dressed_look_def stashed_look_def)
  have "{i. 1 \<le> i \<and> i \<le> (1::int) \<and> i < 2} = {1}" by auto
  with removeLayer_accesses_defined[OF poses, of 1 "loaded dressed_look"] idle_loaded[of dressed_look]
  show ?thesis
    by (auto simp: dressed_look_def stashed_look_def)
qed

text \<open>
  A pose named like a member of \<open>Object.prototype\<close> is found in every pose-image object:
  it is displayed as that member, kept by \<open>removeLayer\<close>, and selected without a
  Gateway call.
\<close>

lemma inherited_pose:
  "displayImageUrl (dressed_look\<lparr>currentPose := ''toString''\<rparr>) = Some (Inherited ''toString'')"
  "map_option currentPose
     (case removeLayerUpdater 1 (dressed_look\<lparr>currentPose := ''toString''\<rparr>) of
        Inl fault \<Rightarrow> None | Inr s' \<Rightarrow> Some s') = Some ''toString''"
  "map_option (\<lambda>a'. currentPose (editorState a'))
     (after (handlePoseSelect (mock_env (\<lambda>c. Inr ''Z'')) (loaded dressed_look) ''toString''))
     = Some ''toString''"
  "calls (handlePoseSelect (mock_env (\<lambda>c. Inr ''Z'')) (loaded dressed_look) ''toString'') = []"
proof -
  show "displayImageUrl (dressed_look\<lparr>currentPose := ''toString''\<rparr>)
      = Some (Inherited ''toString'')"
    by (simp add: displayImageUrl_def at_index_def get_property_def dressed_look_def
        stashed_look_def object_prototype_members_def)
  show "map_option currentPose
     (case removeLayerUpdater 1 (dressed_look\<lparr>currentPose := ''toString''\<rparr>) of
        Inl fault \<Rightarrow> None | Inr s' \<Rightarrow> Some s') = Some ''toString''"
    by (simp add: removeLayerUpdater_def slice0_def at_index_def has_property_def
        dressed_look_def stashed_look_def object_prototype_members_def)
  have h: "handlePoseSelect (mock_env (\<lambda>c. Inr ''Z'')) (loaded dressed_look) ''toString''
      = Returns (clearSuggestions
          ((loaded dressed_look)\<lparr>editorHistory :=
              \<lparr>history = [dressed_look, dressed_look\<lparr>currentPose := ''toString''\<rparr>],
               currentIndex = 1\<rparr>\<rparr>)) []"
    by (simp add: handlePoseSelect_def isBusy_def at_index_def get_property_def
        object_prototype_members_def setEditorState_def setState_def editorState_def
        clearSuggestions_def loaded_def initialAppState_def resetState_def state_def
        dressed_look_def stashed_look_def)
  show "map_option (\<lambda>a'. currentPose (editorState a'))
     (after (handlePoseSelect (mock_env (\<lambda>c. Inr ''Z'')) (loaded dressed_look) ''toString''))
     = Some ''toString''"
    unfolding h by (simp add: editorState_def state_def clearSuggestions_def)
  show "calls (handlePoseSelect (mock_env (\<lambda>c. Inr ''Z'')) (loaded dressed_look) ''toString'') = []"
    unfolding h by simp
qed

section \<open>Repatterning\<close>

text \<open>
  Claim C8 (repattern narrows the pose cache). \<open>handleRepattern\<close> runs when an image is
  displayed, a repattern target is set and the application is not busy. When the Gateway
  call succeeds, the layer that is rewritten, the one at \<open>currentOutfitIndex\<close>, has
  exactly one pose image afterwards: the returned image under the pose that was active at
  the call. Its other pose images are gone; the other layers, the index, the pose and the
  model image are as before.
\<close>

theorem repattern_narrows_cache:
  assumes wf: "wf_store (editorHistory a)"
    and idle: "\<not> isBusy a"
    and target: "repatternTarget a = Some (layerIndex, garmentName)"
    and shown: "displayImageUrl (editorState a) = Some u" "truthy (Some u)"
    and valid: "currentOutfitIndex (editorState a) < length (outfitHistory (editorState a))"
    and ok: "gateway e (RepatternGarment u garmentName patternPrompt) = Inr newImageUrl"
  shows "\<exists>a'. handleRepattern e a patternPrompt
        = Returns a' [RepatternGarment u garmentName patternPrompt]
    \<and> outfitHistory (editorState a')
        = (outfitHistory (editorState a))
            [currentOutfitIndex (editorState a) :=
               (outfitHistory (editorState a) ! currentOutfitIndex (editorState a))
                 \<lparr>poseImages := [(currentPose (editorState a), newImageUrl)]\<rparr>]
    \<and> poseImages (outfitHistory (editorState a') ! currentOutfitIndex (editorState a'))
        = [(currentPose (editorState a), newImageUrl)]
    \<and> length (poseImages (outfitHistory (editorState a') ! currentOutfitIndex (editorState a'))) = 1
    \<and> currentOutfitIndex (editorState a') = currentOutfitIndex (editorState a)
    \<and> currentPose (editorState a') = currentPose (editorState a)
    \<and> modelImageUrl (editorState a') = modelImageUrl (editorState a)"
proof -
  let ?s = "editorState a"
  let ?a1 = "a\<lparr>repatternTarget := None, error := None, isLoading := True,
    loadingMessage := ''Applying new pattern to '' @ garmentName @ ''...''\<rparr>"
  let ?layers = "(outfitHistory ?s)[currentOutfitIndex ?s :=
      (outfitHistory ?s ! currentOutfitIndex ?s)\<lparr>poseImages := [(currentPose ?s, newImageUrl)]\<rparr>]"
  let ?s' = "?s\<lparr>outfitHistory := ?layers\<rparr>"
  have s1: "editorState ?a1 = ?s" by (simp add: editorState_def)
  have wf1: "wf_store (editorHistory ?a1)" using wf by simp
  have upd: "repatternUpdater newImageUrl (editorState ?a1) = Inr ?s'"
    using valid by (simp add: s1 repatternUpdater_def rewriteLayer_def)
  from setEditorState_ok[of ?a1 "repatternUpdater newImageUrl" ?s', OF wf1 upd]
  obtain h' where h': "setEditorState ?a1 (repatternUpdater newImageUrl) = Inr (?a1\<lparr>editorHistory := h'\<rparr>)"
    and st: "state h' = ?s'"
    by blast
  have ret: "handleRepattern e a patternPrompt
      = Returns (finally_block (?a1\<lparr>editorHistory := h'\<rparr>)) [RepatternGarment u garmentName patternPrompt]"
    using idle target shown ok h' by (simp add: handleRepattern_def)
  have es: "editorState (finally_block (?a1\<lparr>editorHistory := h'\<rparr>)) = ?s'"
    using st by (simp add: editorState_def finally_block_def)
  show ?thesis
    using ret es valid by (intro exI[of _ "finally_block (?a1\<lparr>editorHistory := h'\<rparr>)"]) simp
qed

theorem repattern_narrows_cache_witness:
  "handleRepattern (mock_env (\<lambda>c. Inr ''P'')) ((loaded dressed_look)\<lparr>repatternTarget := Some (1, ''Shirt'')\<rparr>) ''dots''
     \<noteq> Unrepresentable
   \<and> calls (handleRepattern (mock_env (\<lambda>c. Inr ''P''))
        ((loaded dressed_look)\<lparr>repatternTarget := Some (1, ''Shirt'')\<rparr>) ''dots'')
      = [RepatternGarment (Url ''Y'') ''Shirt'' ''dots'']
   \<and> map_option (\<lambda>a'. map poseImages (outfitHistory (editorState a')))
        (after (handleRepattern (mock_env (\<lambda>c. Inr ''P''))
           ((loaded dressed_look)\<lparr>repatternTarget := Some (1, ''Shirt'')\<rparr>) ''dots''))
      = Some [[(''front'', ''M'')], [(''side'', ''P'')]]"
proof -
  let ?a = "(loaded dressed_look)\<lparr>repatternTarget := Some (1, ''Shirt'')\<rparr>"
  have es: "editorState ?a = dressed_look"
    by (simp add: editorState_def loaded_def resetState_def state_def)
  have h1: "wf_store (editorHistory ?a)"
    by (simp add: loaded_def wf_resetState)
  have h2: "\<not> isBusy ?a"
    by (simp add: loaded_def isBusy_def initialAppState_def)
  have h3: "repatternTarget ?a = Some (1, ''Shirt'')"
    by simp
  have h4: "displayImageUrl (editorState ?a) = Some (Url ''Y'')" "truthy (Some (Url ''Y''))"
    unfolding es
    by (simp_all add: displayImageUrl_def at_index_def get_property_def dressed_look_def
        stashed_look_def)
  have h5: "currentOutfitIndex (editorState ?a) < length (outfitHistory (editorState ?a))"
    unfolding es by (simp add: dressed_look_def stashed_look_def)
  have h6: "gateway (mock_env (\<lambda>c. Inr ''P'')) (RepatternGarment (Url ''Y'') ''Shirt'' ''dots'')
      = Inr ''P''"
    by (simp add: mock_env_def)
  from repattern_narrows_cache[OF h1 h2 h3 h4 h5 h6, unfolded es]
  show ?thesis
    by (auto simp: dressed_look_def stashed_look_def)
qed

section \<open>Failure of a Gateway call\<close>

lemma setEditorState_isLoading:
  "setEditorState a f = Inr a' \<Longrightarrow> isLoading a' = isLoading a"
  by (auto simp: setEditorState_def split: sum.splits)

lemma caught:
  "editorHistory (finally_block (catch_block e m fallback a)) = editorHistory a"
  "error (finally_block (catch_block e m fallback a)) = Some (getFriendlyErrorMessage e m fallback)"
  by (simp_all add: finally_block_def catch_block_def)

lemma loading_catch_block: "isLoading (catch_block e m fallback a) = isLoading a"
  by (simp add: catch_block_def)

text \<open>A run that reached the Gateway ends in \<open>finally\<close>, which finds the flag on.\<close>

lemma cleaned_upI: "isLoading b \<Longrightarrow> cleaned_up (finally_block b)"
  by (auto simp: cleaned_up_def)

lemma cleaned_up_off: "cleaned_up a' \<Longrightarrow> \<not> isLoading a' \<and> loadingMessage a' = []"
  by (auto simp: cleaned_up_def finally_block_def)

lemma tryOn_failure:
  assumes "c \<in> set (calls (tryOn e a u name gf info made))" "gateway e c = Inl m"
    and "\<forall>c' \<in> set made. \<forall>m'. gateway e c' \<noteq> Inl m'"
  shows "\<exists>a'. tryOn e a u name gf info made
        = Returns a' (calls (tryOn e a u name gf info made))
    \<and> editorHistory a' = editorHistory a
    \<and> error a' = Some (getFriendlyErrorMessage e m ''Failed to apply garment'')"
proof (cases rule: tryOn_cases[of e u gf a name info made])
  case (failed m')
  with assms have "m' = m" by auto
  with failed show ?thesis by (simp add: caught)
next
  case (installed x a')
  with assms show ?thesis by auto
next
  case (outside x)
  with assms show ?thesis by simp
qed

lemma tryOn_settled:
  assumes "after (tryOn e a u name gf info made) = Some a'" "isLoading a"
  shows "cleaned_up a'"
proof (cases rule: tryOn_cases[of e u gf a name info made])
  case (failed m)
  with assms show ?thesis
    by (auto intro!: cleaned_upI simp: loading_catch_block)
next
  case (installed x a1)
  from installed(2) have "isLoading a1"
    using assms(2) by (auto dest!: setEditorState_isLoading)
  with installed(3) assms(1) show ?thesis
    by (auto intro!: cleaned_upI)
next
  case (outside x)
  with assms show ?thesis by simp
qed

lemma tryOn_calls: "tryOn e a u name gf info made \<noteq> Unrepresentable \<Longrightarrow>
  calls (tryOn e a u name gf info made) \<noteq> []"
  by (cases rule: tryOn_cases[of e u gf a name info made]) auto

lemma garment_failure:
  assumes "c \<in> set (calls (handleGarmentSelect e a garmentFile garmentInfo enhance))"
    and "gateway e c = Inl m"
  shows "\<exists>a'. handleGarmentSelect e a garmentFile garmentInfo enhance
        = Returns a' (calls (handleGarmentSelect e a garmentFile garmentInfo enhance))
    \<and> editorHistory a' = editorHistory a
    \<and> error a' = Some (getFriendlyErrorMessage e m ''Failed to apply garment'')"
proof (cases rule: handleGarmentSelect_cases[of a e garmentFile garmentInfo enhance])
  case guard
  with assms show ?thesis by simp
next
  case (shortcut u)
  with assms show ?thesis by (auto split: sum.splits)
next
  case (cleanup_failed u m')
  with assms have "m' = m" by auto
  with cleanup_failed show ?thesis by (simp add: caught)
next
  case (enhanced u ef)
  have made: "\<forall>c' \<in> set [CleanupGarmentImage garmentFile]. \<forall>m'. gateway e c' \<noteq> Inl m'"
    using enhanced(5) by simp
  from tryOn_failure[OF assms(1)[unfolded enhanced(6)] assms(2) made]
  show ?thesis unfolding enhanced(6) by simp
next
  case (plain u)
  have made: "\<forall>c' \<in> set []. \<forall>m'. gateway e c' \<noteq> Inl m'" by simp
  from tryOn_failure[OF assms(1)[unfolded plain(5)] assms(2) made]
  show ?thesis unfolding plain(5) by simp
qed

lemma garment_settled:
  assumes "after (handleGarmentSelect e a garmentFile garmentInfo enhance) = Some a'"
  shows "calls (handleGarmentSelect e a garmentFile garmentInfo enhance) \<noteq> [] \<longrightarrow> cleaned_up a'"
    and "\<not> isBusy a \<longrightarrow> \<not> isLoading a'"
proof -
  have "(calls (handleGarmentSelect e a garmentFile garmentInfo enhance) \<noteq> [] \<longrightarrow> cleaned_up a')
    \<and> (\<not> isBusy a \<longrightarrow> \<not> isLoading a')"
  proof (cases rule: handleGarmentSelect_cases[of a e garmentFile garmentInfo enhance])
    case guard
    with assms show ?thesis by (auto simp: isBusy_def)
  next
    case (shortcut u)
    with assms show ?thesis
      by (auto simp: isBusy_def clearSuggestions_def dest!: setEditorState_isLoading
          split: sum.splits)
  next
    case (cleanup_failed u m')
    have "cleaned_up a'"
      using assms unfolding cleanup_failed(5)
      by (auto intro!: cleaned_upI simp: loading_catch_block)
    then show ?thesis using cleaned_up_off by blast
  next
    case (enhanced u ef)
    have "cleaned_up a'"
      using assms unfolding enhanced(6) by (rule tryOn_settled) simp
    then show ?thesis using cleaned_up_off by blast
  next
    case (plain u)
    have "cleaned_up a'"
      using assms unfolding plain(5) by (rule tryOn_settled) simp
    then show ?thesis using cleaned_up_off by blast
  qed
  then show "calls (handleGarmentSelect e a garmentFile garmentInfo enhance) \<noteq> [] \<longrightarrow> cleaned_up a'"
    and "\<not> isBusy a \<longrightarrow> \<not> isLoading a'" by simp_all
qed

lemma pose_failure:
  assumes "c \<in> set (calls (handlePoseSelect e a newPose))" "gateway e c = Inl m"
  shows "\<exists>a'. handlePoseSelect e a newPose = Returns a' (calls (handlePoseSelect e a newPose))
    \<and> editorHistory a' = editorHistory a
    \<and> error a' = Some (getFriendlyErrorMessage e m ''Failed to change pose'')"
proof (cases rule: handlePoseSelect_cases[of a newPose e])
  case (failed b m')
  with assms have "m' = m" by auto
  with failed show ?thesis by (simp add: caught)
qed (use assms in \<open>auto split: sum.splits\<close>)

lemma pose_settled:
  assumes "after (handlePoseSelect e a newPose) = Some a'"
  shows "calls (handlePoseSelect e a newPose) \<noteq> [] \<longrightarrow> cleaned_up a'"
    and "\<not> isBusy a \<longrightarrow> \<not> isLoading a'"
proof -
  have "(calls (handlePoseSelect e a newPose) \<noteq> [] \<longrightarrow> cleaned_up a')
    \<and> (\<not> isBusy a \<longrightarrow> \<not> isLoading a')"
  proof (cases rule: handlePoseSelect_cases[of a newPose e])
    case (failed b m')
    have "cleaned_up a'"
      using assms unfolding failed(3)
      by (auto intro!: cleaned_upI simp: loading_catch_block)
    then show ?thesis using cleaned_up_off by blast
  next
    case (generated l b x)
    have "cleaned_up a'"
      using assms unfolding generated(5)
      by (auto intro!: cleaned_upI dest!: setEditorState_isLoading split: sum.splits)
    then show ?thesis using cleaned_up_off by blast
  qed (use assms in \<open>auto simp: isBusy_def clearSuggestions_def
        dest!: setEditorState_isLoading split: sum.splits\<close>)
  then show "calls (handlePoseSelect e a newPose) \<noteq> [] \<longrightarrow> cleaned_up a'"
    and "\<not> isBusy a \<longrightarrow> \<not> isLoading a'" by simp_all
qed

lemma background_failure:
  assumes "c \<in> set (calls (handleBackgroundChange e a p))" "gateway e c = Inl m"
  shows "\<exists>a'. handleBackgroundChange e a p = Returns a' (calls (handleBackgroundChange e a p))
    \<and> editorHistory a' = editorHistory a
    \<and> error a' = Some (getFriendlyErrorMessage e m ''Failed to change background'')"
proof (cases rule: handleBackgroundChange_cases[of a e p])
  case (failed u m')
  with assms have "m' = m" by auto
  with failed show ?thesis by (simp add: caught)
qed (use assms in \<open>auto split: sum.splits\<close>)

lemma background_settled:
  assumes "after (handleBackgroundChange e a p) = Some a'"
  shows "calls (handleBackgroundChange e a p) \<noteq> [] \<longrightarrow> cleaned_up a'"
    and "\<not> isBusy a \<longrightarrow> \<not> isLoading a'"
proof -
  have "(calls (handleBackgroundChange e a p) \<noteq> [] \<longrightarrow> cleaned_up a')
    \<and> (\<not> isBusy a \<longrightarrow> \<not> isLoading a')"
  proof (cases rule: handleBackgroundChange_cases[of a e p])
    case guard
    with assms show ?thesis by (auto simp: isBusy_def)
  next
    case (failed u m')
    have "cleaned_up a'"
      using assms unfolding failed(5)
      by (auto intro!: cleaned_upI simp: loading_catch_block)
    then show ?thesis using cleaned_up_off by blast
  next
    case (generated u x)
    have "cleaned_up a'"
      using assms unfolding generated(5)
      by (auto intro!: cleaned_upI dest!: setEditorState_isLoading split: sum.splits)
    then show ?thesis using cleaned_up_off by blast
  qed
  then show "calls (handleBackgroundChange e a p) \<noteq> [] \<longrightarrow> cleaned_up a'"
    and "\<not> isBusy a \<longrightarrow> \<not> isLoading a'" by simp_all
qed

lemma repattern_failure:
  assumes "c \<in> set (calls (handleRepattern e a p))" "gateway e c = Inl m"
  shows "\<exists>a'. handleRepattern e a p = Returns a' (calls (handleRepattern e a p))
    \<and> editorHistory a' = editorHistory a
    \<and> error a' = Some (getFriendlyErrorMessage e m ''Failed to repattern garment'')"
proof (cases rule: handleRepattern_cases[of a e p])
  case (failed u li name m')
  with assms have "m' = m" by auto
  with failed show ?thesis by (simp add: caught)
qed (use assms in \<open>auto split: sum.splits\<close>)

lemma repattern_settled:
  assumes "after (handleRepattern e a p) = Some a'"
  shows "calls (handleRepattern e a p) \<noteq> [] \<longrightarrow> cleaned_up a'"
    and "\<not> isBusy a \<longrightarrow> \<not> isLoading a'"
proof -
  have "(calls (handleRepattern e a p) \<noteq> [] \<longrightarrow> cleaned_up a')
    \<and> (\<not> isBusy a \<longrightarrow> \<not> isLoading a')"
  proof (cases rule: handleRepattern_cases[of a e p])
    case guard
    with assms show ?thesis by (auto simp: isBusy_def)
  next
    case (failed u li name m')
    have "cleaned_up a'"
      using assms unfolding failed(6)
      by (auto intro!: cleaned_upI simp: loading_catch_block)
    then show ?thesis using cleaned_up_off by blast
  next
    case (generated u li name x)
    have "cleaned_up a'"
      using assms unfolding generated(6)
      by (auto intro!: cleaned_upI dest!: setEditorState_isLoading split: sum.splits)
    then show ?thesis using cleaned_up_off by blast
  qed
  then show "calls (handleRepattern e a p) \<noteq> [] \<longrightarrow> cleaned_up a'"
    and "\<not> isBusy a \<longrightarrow> \<not> isLoading a'" by simp_all
qed

text \<open>The handlers settle: the promise of a handler resolves or rejects in a component
  state of the model.\<close>

lemma tryOn_returns: "\<exists>a'. after (tryOn e a u name gf info made) = Some a'"
proof (cases rule: tryOn_cases[of e u gf a name info made])
  case (outside x)
  let ?l = "\<lparr>garment = Some info, poseImages = [(currentPose (editorState a), x)]\<rparr>"
  let ?a = "a\<lparr>loadingMessage := ''Adding '' @ name @ ''...''\<rparr>"
  have "\<exists>s'. appendLayerUpdater ?l (editorState ?a) = Inr s'"
    by (simp add: appendLayerUpdater_def Let_def)
  then obtain a' where "setEditorState ?a (appendLayerUpdater ?l) = Inr a'"
    using setEditorState_total by blast
  with outside show ?thesis by (simp add: tryOn_def Let_def)
qed simp_all

lemma garment_returns:
  "\<exists>a'. after (handleGarmentSelect e a garmentFile garmentInfo enhance) = Some a'"
proof (cases rule: handleGarmentSelect_cases[of a e garmentFile garmentInfo enhance])
  case (shortcut u)
  have "\<exists>s'. advanceUpdater (editorState (clearSuggestions a)) = Inr s'"
    by (simp add: advanceUpdater_def)
  then obtain a' where "setEditorState (clearSuggestions a) advanceUpdater = Inr a'"
    using setEditorState_total by blast
  with shortcut(5) show ?thesis by simp
next
  case (enhanced u ef)
  show ?thesis unfolding enhanced(6) by (rule tryOn_returns)
next
  case (plain u)
  show ?thesis unfolding plain(5) by (rule tryOn_returns)
qed simp_all

lemma pose_returns: "\<exists>a'. after (handlePoseSelect e a newPose) = Some a'"
proof (cases rule: handlePoseSelect_cases[of a newPose e])
  case (cached l)
  have "\<exists>a'. setEditorState (clearSuggestions a)
      (\<lambda>prev. Inr (prev\<lparr>currentPose := newPose\<rparr>)) = Inr a'"
    by (rule setEditorState_total) simp
  with cached(5) show ?thesis by auto
next
  case (generated l b x)
  let ?a2 = "(clearSuggestions a)\<lparr>error := None, isLoading := True,
    loadingMessage := ''Changing pose...''\<rparr>"
  from generated(3) have "currentOutfitIndex (editorState a) < length (outfitHistory (editorState a))"
    by (simp add: at_index_def split: if_splits)
  then have "\<exists>s'. poseUpdater newPose x (editorState ?a2) = Inr s'"
    by (simp add: poseUpdater_def rewriteLayer_def)
  then obtain a' where "setEditorState ?a2 (poseUpdater newPose x) = Inr a'"
    using setEditorState_total by blast
  with generated(5) show ?thesis by simp
qed simp_all

lemma background_returns:
  assumes "currentOutfitIndex (editorState a) < length (outfitHistory (editorState a))"
  shows "\<exists>a'. after (handleBackgroundChange e a p) = Some a'"
proof (cases rule: handleBackgroundChange_cases[of a e p])
  case (generated u x)
  let ?a2 = "(clearSuggestions a)\<lparr>error := None, isLoading := True,
    loadingMessage := ''Generating new scene...''\<rparr>"
  from assms have "\<exists>s'. backgroundUpdater x (editorState ?a2) = Inr s'"
    by (simp add: backgroundUpdater_def rewriteLayer_def)
  then obtain a' where "setEditorState ?a2 (backgroundUpdater x) = Inr a'"
    using setEditorState_total by blast
  with generated(5) show ?thesis by simp
qed simp_all

lemma repattern_returns:
  assumes "currentOutfitIndex (editorState a) < length (outfitHistory (editorState a))"
  shows "\<exists>a'. after (handleRepattern e a p) = Some a'"
proof (cases rule: handleRepattern_cases[of a e p])
  case (generated u li name x)
  let ?a1 = "a\<lparr>repatternTarget := None, error := None, isLoading := True,
    loadingMessage := ''Applying new pattern to '' @ name @ ''...''\<rparr>"
  from assms have "\<exists>s'. repatternUpdater x (editorState ?a1) = Inr s'"
    by (simp add: repatternUpdater_def rewriteLayer_def)
  then obtain a' where "setEditorState ?a1 (repatternUpdater x) = Inr a'"
    using setEditorState_total by blast
  with generated(6) show ?thesis by simp
qed simp_all

text \<open>
  Claim C6 (failure atomicity). Let \<open>out\<close> be the result of applying a garment, selecting
  a pose, changing the background or repatterning. If a Gateway call made by the handler
  failed with message \<open>m\<close>, then the handler returns, the whole session store and so the
  snapshot are exactly as before the call, and the error state is set to the friendly form
  of \<open>m\<close>. Every run that reached the Gateway, failed or not, ends in the \<open>finally\<close>
  block: the state it ends in is \<open>finally_block\<close> of a state in which the loading flag was
  on (the handler had set it), so the flag is off and the loading message empty. A run
  that started while the application was not busy ends with the loading flag off. And
  the handler does settle when \<open>currentOutfitIndex\<close> indexes the layer list.
\<close>

theorem failure_atomicity:
  assumes "out = handleGarmentSelect e a garmentFile garmentInfo enhance
    \<or> out = handlePoseSelect e a newPose
    \<or> out = handleBackgroundChange e a backgroundPrompt
    \<or> out = handleRepattern e a patternPrompt"
  shows "(\<forall>c m. c \<in> set (calls out) \<and> gateway e c = Inl m \<longrightarrow>
            (\<exists>a' fallback. out = Returns a' (calls out)
               \<and> editorHistory a' = editorHistory a
               \<and> editorState a' = editorState a
               \<and> error a' = Some (getFriendlyErrorMessage e m fallback)
               \<and> \<not> isLoading a' \<and> loadingMessage a' = []))
    \<and> (\<forall>a'. after out = Some a' \<and> calls out \<noteq> [] \<longrightarrow>
          (\<exists>b. isLoading b \<and> a' = finally_block b)
          \<and> \<not> isLoading a' \<and> loadingMessage a' = [])
    \<and> (\<forall>a'. after out = Some a' \<and> (calls out \<noteq> [] \<or> \<not> isBusy a) \<longrightarrow> \<not> isLoading a')
    \<and> (currentOutfitIndex (editorState a) < length (outfitHistory (editorState a)) \<longrightarrow>
          (\<exists>a'. after out = Some a'))"
proof -
  have returns: "\<exists>a'. after out = Some a'"
    if valid: "currentOutfitIndex (editorState a) < length (outfitHistory (editorState a))"
    using assms
  proof (elim disjE)
    assume o: "out = handleGarmentSelect e a garmentFile garmentInfo enhance"
    show ?thesis unfolding o by (rule garment_returns)
  next
    assume o: "out = handlePoseSelect e a newPose"
    show ?thesis unfolding o by (rule pose_returns)
  next
    assume o: "out = handleBackgroundChange e a backgroundPrompt"
    show ?thesis unfolding o using valid by (rule background_returns)
  next
    assume o: "out = handleRepattern e a patternPrompt"
    show ?thesis unfolding o using valid by (rule repattern_returns)
  qed
  have settled: "(calls out \<noteq> [] \<longrightarrow> cleaned_up a') \<and> (\<not> isBusy a \<longrightarrow> \<not> isLoading a')"
    if "after out = Some a'" for a'
    using assms
  proof (elim disjE)
    assume o: "out = handleGarmentSelect e a garmentFile garmentInfo enhance"
    from garment_settled[OF that[unfolded o]] show ?thesis unfolding o by simp
  next
    assume o: "out = handlePoseSelect e a newPose"
    from pose_settled[OF that[unfolded o]] show ?thesis unfolding o by simp
  next
    assume o: "out = handleBackgroundChange e a backgroundPrompt"
    from background_settled[OF that[unfolded o]] show ?thesis unfolding o by simp
  next
    assume o: "out = handleRepattern e a patternPrompt"
    from repattern_settled[OF that[unfolded o]] show ?thesis unfolding o by simp
  qed
  have fail: "\<exists>a' fallback. out = Returns a' (calls out)
               \<and> editorHistory a' = editorHistory a
               \<and> editorState a' = editorState a
               \<and> error a' = Some (getFriendlyErrorMessage e m fallback)
               \<and> \<not> isLoading a' \<and> loadingMessage a' = []"
    if c: "c \<in> set (calls out)" and m: "gateway e c = Inl m" for c m
  proof -
    have "\<exists>a' fallback. out = Returns a' (calls out)
               \<and> editorHistory a' = editorHistory a
               \<and> error a' = Some (getFriendlyErrorMessage e m fallback)"
      using assms
    proof (elim disjE)
      assume o: "out = handleGarmentSelect e a garmentFile garmentInfo enhance"
      from garment_failure[OF c[unfolded o] m] show ?thesis unfolding o by blast
    next
      assume o: "out = handlePoseSelect e a newPose"
      from pose_failure[OF c[unfolded o] m] show ?thesis unfolding o by blast
    next
      assume o: "out = handleBackgroundChange e a backgroundPrompt"
      from background_failure[OF c[unfolded o] m] show ?thesis unfolding o by blast
    next
      assume o: "out = handleRepattern e a patternPrompt"
      from repattern_failure[OF c[unfolded o] m] show ?thesis unfolding o by blast
    qed
    then obtain a' fallback where r: "out = Returns a' (calls out)"
      "editorHistory a' = editorHistory a"
      "error a' = Some (getFriendlyErrorMessage e m fallback)"
      by blast
    from r(1) have "after out = Some a'" by (metis after.simps(1))
    moreover from c have "calls out \<noteq> []" by auto
    ultimately have "cleaned_up a'" using settled by blast
    then have "\<not> isLoading a' \<and> loadingMessage a' = []" by (rule cleaned_up_off)
    with r show ?thesis by (auto simp: editorState_def)
  qed
  have clean: "(\<exists>b. isLoading b \<and> a' = finally_block b)
      \<and> \<not> isLoading a' \<and> loadingMessage a' = []"
    if "after out = Some a'" "calls out \<noteq> []" for a'
  proof -
    from settled[OF that(1)] that(2) have c: "cleaned_up a'" by simp
    with cleaned_up_off[OF c] show ?thesis by (simp add: cleaned_up_def)
  qed
  have off: "\<not> isLoading a'"
    if "after out = Some a'" "calls out \<noteq> [] \<or> \<not> isBusy a" for a'
    using settled[OF that(1)] that(2) cleaned_up_off by blast
  from fail clean off returns show ?thesis by blast
qed

theorem failure_atomicity_witness:
  "(\<exists>a'. handleBackgroundChange (mock_env (\<lambda>c. Inl ''blocked'')) (loaded dressed_look) ''beach''
          = Returns a' [GenerateBackground (Url ''Y'') ''beach'']
        \<and> editorState a' = dressed_look
        \<and> error a' \<noteq> None
        \<and> (\<exists>b. isLoading b \<and> a' = finally_block b)
        \<and> \<not> isLoading a' \<and> loadingMessage a' = [])"
proof -
  let ?e = "mock_env (\<lambda>c. Inl ''blocked'')"
  let ?out = "handleBackgroundChange ?e (loaded dressed_look) ''beach''"
  have cs: "calls ?out = [GenerateBackground (Url ''Y'') ''beach'']"
    by (simp add: handleBackgroundChange_def editorState_loaded idle_loaded displayImageUrl_def
        at_index_def get_property_def dressed_look_def stashed_look_def mock_env_def)
  have c: "GenerateBackground (Url ''Y'') ''beach'' \<in> set (calls ?out)"
    and m: "gateway ?e (GenerateBackground (Url ''Y'') ''beach'') = Inl ''blocked''"
    by (simp add: cs, simp add: mock_env_def)
  have "?out = handleGarmentSelect ?e (loaded dressed_look) [] g1 False
    \<or> ?out = handlePoseSelect ?e (loaded dressed_look) []
    \<or> ?out = handleBackgroundChange ?e (loaded dressed_look) ''beach''
    \<or> ?out = handleRepattern ?e (loaded dressed_look) []"
    by simp
  note law = failure_atomicity[OF this]
  from law c m
  obtain a' fallback where r: "?out = Returns a' (calls ?out)"
    "editorState a' = editorState (loaded dressed_look)"
    "error a' = Some (getFriendlyErrorMessage ?e ''blocked'' fallback)" "\<not> isLoading a'"
    "loadingMessage a' = []"
    by blast
  from r(1) have "after ?out = Some a'" by (metis after.simps(1))
  moreover have "calls ?out \<noteq> []" by (simp add: cs)
  ultimately have "\<exists>b. isLoading b \<and> a' = finally_block b" using law by blast
  with r show ?thesis
    by (simp add: cs editorState_loaded)
qed

section \<open>The scenario: finalize, apply, undo, apply again\<close>

lemmas handler_defs =
  handleModelFinalized_def handleGarmentSelect_def redoShortcut_def tryOn_def
  setEditorState_def setState_def appendLayerUpdater_def advanceUpdater_def editorState_def
  state_def resetState_def displayImageUrl_def get_property_def at_index_def slice0_def
  clearSuggestions_def
  isBusy_def finally_block_def catch_block_def handleUndo_def handleRedo_def undo_def redo_def

lemmas scenario_defs =
  scenario_reapplied_def scenario_undone_def scenario_applied_def scenario_finalized_def
  scenario_env_def mock_env_def g1_def initialAppState_def initialEditorState_def
  useUndoableState_def

text \<open>
  Claim C1, as stated, fails. After \<open>finalizeModel(M)\<close> and the application of \<open>g1\<close>,
  \<open>undo\<close> goes back to the stored snapshot of the finalized model: the displayed image is
  \<open>M\<close> and the index is 0, but that snapshot has the base layer only, there is no layer
  at index 1, and applying \<open>g1\<close> again calls the Gateway a second time.
\<close>

theorem scenario_reapply_counterexample:
  "displayImageUrl (editorState scenario_undone) = Some (Url ''M'')
   \<and> currentOutfitIndex (editorState scenario_undone) = 0
   \<and> at_index (outfitHistory (editorState scenario_undone)) 1 = None
   \<and> calls scenario_reapplied = [GenerateVirtualTryOnImage (Url ''M'') ''g1.png'']"
  by (simp add: scenario_defs handler_defs Let_def)

text \<open>
  Claim C1, amended. Let \<open>M\<close> be a non-empty image reference, the application not busy,
  and the Gateway answer \<open>X\<close> to the try-on of garment \<open>g\<close> on \<open>M\<close>. After
  \<open>handleModelFinalized\<close> the displayed image is \<open>M\<close> and there is one layer. Applying \<open>g\<close>
  makes one Gateway call and yields displayed image \<open>X\<close> and index 1. \<open>undo\<close> then makes
  the displayed image \<open>M\<close> again and the index 0; the current snapshot holds the base
  layer alone, and the layer of \<open>g\<close> lives on only in the later snapshot of the session
  store, which \<open>redo\<close> reinstates as it was, without the Gateway. Applying \<open>g\<close> again
  after the \<open>undo\<close> calls the Gateway a second time, with the same arguments, and displays
  what it returns, \<open>X\<close>, at index 1.
\<close>

theorem scenario_undo_then_reapply:
  assumes "M \<noteq> []" "\<not> isBusy a0" "gateway e (GenerateVirtualTryOnImage (Url M) f) = Inr X"
  shows "\<exists>a1 a3.
      displayImageUrl (editorState (handleModelFinalized a0 M)) = Some (Url M)
    \<and> length (outfitHistory (editorState (handleModelFinalized a0 M))) = 1
    \<and> handleGarmentSelect e (handleModelFinalized a0 M) f g False
        = Returns a1 [GenerateVirtualTryOnImage (Url M) f]
    \<and> displayImageUrl (editorState a1) = Some (Url X)
    \<and> currentOutfitIndex (editorState a1) = 1
    \<and> displayImageUrl (editorState (handleUndo a1)) = Some (Url M)
    \<and> currentOutfitIndex (editorState (handleUndo a1)) = 0
    \<and> map garment (outfitHistory (editorState (handleUndo a1))) = [None]
    \<and> map (\<lambda>s. map garment (outfitHistory s)) (history (editorHistory (handleUndo a1)))
        = [[None], [None, Some g]]
    \<and> handleRedo (handleUndo a1) = a1
    \<and> handleGarmentSelect e (handleUndo a1) f g False
        = Returns a3 [GenerateVirtualTryOnImage (Url M) f]
    \<and> displayImageUrl (editorState a3) = Some (Url X)
    \<and> currentOutfitIndex (editorState a3) = 1"
  using assms
  by (simp add: initialEditorState_def handler_defs Let_def)

theorem scenario_undo_then_reapply_witness:
  "calls scenario_applied = [GenerateVirtualTryOnImage (Url ''M'') ''g1.png'']
   \<and> map_option (\<lambda>a. displayImageUrl (editorState a)) (after scenario_applied) = Some (Some (Url ''X''))
   \<and> map garment (outfitHistory (editorState scenario_undone)) = [None]
   \<and> calls scenario_reapplied = [GenerateVirtualTryOnImage (Url ''M'') ''g1.png'']
   \<and> map_option (\<lambda>a. displayImageUrl (editorState a)) (after scenario_reapplied) = Some (Some (Url ''X''))"
proof -
  have hyps: "''M'' \<noteq> []" "\<not> isBusy initialAppState"
    "gateway scenario_env (GenerateVirtualTryOnImage (Url ''M'') ''g1.png'') = Inr ''X''"
    by (simp_all add: isBusy_def initialAppState_def scenario_env_def mock_env_def)
  from scenario_undo_then_reapply[OF hyps, of g1]
  show ?thesis
    unfolding scenario_reapplied_def scenario_undone_def scenario_applied_def
      scenario_finalized_def
    by auto
qed

section \<open>The layer invariant\<close>

lemma app_ok_current: "app_ok a \<Longrightarrow> snapshot_ok (editorState a)"
  by (simp add: app_ok_def editorState_def state_in_history)

lemma setEditorState_app_ok:
  assumes "app_ok a" "f (editorState a) = Inr s'" "snapshot_ok s'"
  shows "\<exists>a'. setEditorState a f = Inr a' \<and> app_ok a'"
proof -
  from assms(1) have wf: "wf_store (editorHistory a)" by (simp add: app_ok_def)
  from setEditorState_ok[of a f s', OF wf assms(2)]
  obtain h' where h': "setEditorState a f = Inr (a\<lparr>editorHistory := h'\<rparr>)"
    and wf': "wf_store h'"
    and sub: "set (history h') \<subseteq> insert s' (set (history (editorHistory a)))"
    by blast
  have "app_ok (a\<lparr>editorHistory := h'\<rparr>)"
    using wf' sub assms(1,3) by (auto simp: app_ok_def)
  with h' show ?thesis by blast
qed

lemma snapshot_ok_shown:
  assumes "snapshot_ok s" "truthy (displayImageUrl s)"
  shows "outfitHistory s \<noteq> []" "currentOutfitIndex s < length (outfitHistory s)"
proof -
  show ne: "outfitHistory s \<noteq> []"
  proof
    assume "outfitHistory s = []"
    with assms show False by (simp add: snapshot_ok_def displayImageUrl_def)
  qed
  with assms(1) show "currentOutfitIndex s < length (outfitHistory s)"
    by (simp add: snapshot_ok_def layer_invariant_def)
qed

lemma advance_ok:
  assumes "snapshot_ok s" "redoShortcut s g"
  shows "\<exists>s'. advanceUpdater s = Inr s' \<and> snapshot_ok s'"
proof -
  from assms(2) have "currentOutfitIndex s + 1 < length (outfitHistory s)"
    by (auto simp: redoShortcut_def at_index_def split: option.splits if_splits)
  with assms(1) show ?thesis
    by (auto simp: advanceUpdater_def snapshot_ok_def layer_invariant_def)
qed

lemma append_ok:
  assumes "snapshot_ok s" "outfitHistory s \<noteq> []" "poseImages l \<noteq> []"
  shows "\<exists>s'. appendLayerUpdater l s = Inr s' \<and> snapshot_ok s'"
proof -
  let ?kept = "take (currentOutfitIndex s + 1) (outfitHistory s)"
  from assms(1,2) have idx: "currentOutfitIndex s < length (outfitHistory s)"
    and base: "garment (outfitHistory s ! 0) = None"
    and poses: "\<forall>l \<in> set (outfitHistory s). poseImages l \<noteq> []"
    by (simp_all add: snapshot_ok_def layer_invariant_def)
  have sl: "slice0 (outfitHistory s) (int (currentOutfitIndex s) + 1) = ?kept"
    by (simp add: slice0_def nat_add_distrib)
  have len: "length ?kept = currentOutfitIndex s + 1" using idx by simp
  have hd0: "(?kept @ [l]) ! 0 = outfitHistory s ! 0"
    using len by (simp add: nth_append)
  have ps: "\<forall>l' \<in> set (?kept @ [l]). poseImages l' \<noteq> []"
    using poses assms(3) by (auto dest: in_set_takeD)
  show ?thesis
    unfolding appendLayerUpdater_def Let_def sl
    using len hd0 ps base
    by (simp add: snapshot_ok_def layer_invariant_def del: take_Suc_conv_app_nth)
qed

lemma rewriteLayer_ok:
  assumes "snapshot_ok s" "outfitHistory s \<noteq> []" "\<And>m. f m \<noteq> []"
  shows "\<exists>layers. rewriteLayer (outfitHistory s) (currentOutfitIndex s) f = Inr layers
    \<and> snapshot_ok (s\<lparr>outfitHistory := layers\<rparr>)
    \<and> snapshot_ok (s\<lparr>outfitHistory := layers, currentPose := p\<rparr>)"
proof -
  let ?i = "currentOutfitIndex s"
  let ?l = "(outfitHistory s ! ?i)\<lparr>poseImages := f (poseImages (outfitHistory s ! ?i))\<rparr>"
  from assms(1,2) have idx: "?i < length (outfitHistory s)"
    and base: "garment (outfitHistory s ! 0) = None"
    and poses: "\<forall>l \<in> set (outfitHistory s). poseImages l \<noteq> []"
    and top: "?i + 1 = length (outfitHistory s)"
    by (simp_all add: snapshot_ok_def layer_invariant_def)
  have r: "rewriteLayer (outfitHistory s) ?i f = Inr ((outfitHistory s)[?i := ?l])"
    using idx by (simp add: rewriteLayer_def)
  have g0: "garment ((outfitHistory s)[?i := ?l] ! 0) = None"
    using base idx by (cases "?i = 0") simp_all
  have ps: "\<forall>l \<in> set ((outfitHistory s)[?i := ?l]). poseImages l \<noteq> []"
  proof
    fix l assume "l \<in> set ((outfitHistory s)[?i := ?l])"
    then have "l = ?l \<or> l \<in> set (outfitHistory s)"
      using set_update_subset_insert[of "outfitHistory s" ?i ?l] by auto
    then show "poseImages l \<noteq> []" using poses assms(3) by auto
  qed
  show ?thesis
    using r g0 ps idx top assms(2) by (simp add: snapshot_ok_def layer_invariant_def)
qed

lemma poseUpdater_ok:
  assumes "snapshot_ok s" "outfitHistory s \<noteq> []"
  shows "\<exists>s'. poseUpdater p x s = Inr s' \<and> snapshot_ok s'"
  using rewriteLayer_ok[where f="\<lambda>m. assign m p x" and p=p, OF assms assign_nonempty]
  by (auto simp: poseUpdater_def)

lemma backgroundUpdater_ok:
  assumes "snapshot_ok s" "outfitHistory s \<noteq> []"
  shows "\<exists>s'. backgroundUpdater x s = Inr s' \<and> snapshot_ok s'"
  using rewriteLayer_ok[where f="\<lambda>m. assign m (currentPose s) x" and p="currentPose s",
      OF assms assign_nonempty]
  by (auto simp: backgroundUpdater_def)

lemma removeLayerUpdater_ok:
  assumes "snapshot_ok s"
  shows "removeLayerUpdater li s = Inl TypeError
    \<or> (\<exists>s'. removeLayerUpdater li s = Inr s' \<and> snapshot_ok s')"
proof (cases "0 < li \<and> li \<le> int (length (outfitHistory s))")
  case False
  then have "at_index (slice0 (outfitHistory s) li) (li - 1) = None"
    by (auto simp: at_index_def slice0_def)
  then show ?thesis by (simp add: removeLayerUpdater_def)
next
  case True
  then have pos: "0 < li" and le: "li \<le> int (length (outfitHistory s))" by simp_all
  let ?L = "outfitHistory s ! nat (li - 1)"
  from assms have poses: "\<forall>l \<in> set (outfitHistory s). poseImages l \<noteq> []"
    by (simp add: snapshot_ok_def)
  have "?L \<in> set (outfitHistory s)" using pos le by simp
  with poses have ne: "poseImages ?L \<noteq> []" by simp
  note eq = removeLayerUpdater_in_range[OF pos le ne]
  have ne': "outfitHistory s \<noteq> []" using pos le by auto
  with assms have base: "garment (outfitHistory s ! 0) = None"
    by (simp add: snapshot_ok_def layer_invariant_def)
  have "snapshot_ok (s\<lparr>outfitHistory := take (nat li) (outfitHistory s),
            currentOutfitIndex := nat (li - 1), currentPose := p\<rparr>)" for p
    using pos le base poses ne'
    by (auto simp: snapshot_ok_def layer_invariant_def dest: in_set_takeD)
  with eq show ?thesis by simp
qed

lemma app_ok_settled [simp]:
  "app_ok (finally_block a) = app_ok a"
  "app_ok (catch_block e m fallback a) = app_ok a"
  "app_ok (clearSuggestions a) = app_ok a"
  "app_ok (a\<lparr>error := x\<rparr>) = app_ok a"
  "app_ok (a\<lparr>wardrobe := w\<rparr>) = app_ok a"
  "app_ok (a\<lparr>isLoading := y\<rparr>) = app_ok a"
  "app_ok (a\<lparr>loadingMessage := z\<rparr>) = app_ok a"
  by (simp_all add: app_ok_def finally_block_def catch_block_def clearSuggestions_def)

lemma snapshot_ok_initial: "snapshot_ok initialEditorState"
  by (simp add: snapshot_ok_def layer_invariant_def initialEditorState_def)

lemma app_ok_resetState: "snapshot_ok s \<Longrightarrow> app_ok (a\<lparr>editorHistory := resetState s\<rparr>)"
  by (simp add: app_ok_def wf_resetState) (simp add: resetState_def)

lemma app_ok_initial: "app_ok initialAppState"
  by (simp add: app_ok_def initialAppState_def wf_useUndoableState)
     (simp add: useUndoableState_def snapshot_ok_initial)

lemma finalized_app_ok: "app_ok (handleModelFinalized a url)"
  unfolding handleModelFinalized_def
  by (rule app_ok_resetState)
     (simp add: snapshot_ok_def layer_invariant_def initialEditorState_def)

lemma startOver_app_ok: "app_ok (handleStartOver a)"
proof -
  have "editorHistory (handleStartOver a) = resetState initialEditorState"
    by (simp add: handleStartOver_def)
  then show ?thesis
    using app_ok_resetState[OF snapshot_ok_initial, of a]
    by (simp add: app_ok_def)
qed

lemma undo_app_ok: "app_ok a \<Longrightarrow> app_ok (handleUndo a)"
  by (auto simp: app_ok_def handleUndo_def wf_undo) (simp add: undo_def split: if_splits)

lemma redo_app_ok: "app_ok a \<Longrightarrow> app_ok (handleRedo a)"
  by (auto simp: app_ok_def handleRedo_def wf_redo) (simp add: redo_def split: if_splits)

lemma tryOn_app_ok:
  assumes "app_ok a" "outfitHistory (editorState a) \<noteq> []"
  shows "\<exists>a'. after (tryOn e a u name gf info made) = Some a' \<and> app_ok a'"
proof (cases rule: tryOn_cases[of e u gf a name info made])
  case (failed m)
  with assms(1) show ?thesis by simp
next
  case (installed x a')
  let ?l = "\<lparr>garment = Some info, poseImages = [(currentPose (editorState a), x)]\<rparr>"
  let ?a = "a\<lparr>loadingMessage := ''Adding '' @ name @ ''...''\<rparr>"
  have ok: "app_ok ?a" using assms(1) by simp
  from append_ok[OF app_ok_current[OF assms(1)] assms(2), of ?l]
  obtain s' where "appendLayerUpdater ?l (editorState ?a) = Inr s'" "snapshot_ok s'"
    by auto
  from setEditorState_app_ok[where f="appendLayerUpdater ?l", OF ok this] installed(2)
  have "app_ok a'" by auto
  with installed(3) show ?thesis by simp
next
  case (outside x)
  let ?l = "\<lparr>garment = Some info, poseImages = [(currentPose (editorState a), x)]\<rparr>"
  let ?a = "a\<lparr>loadingMessage := ''Adding '' @ name @ ''...''\<rparr>"
  have ok: "app_ok ?a" using assms(1) by simp
  from append_ok[OF app_ok_current[OF assms(1)] assms(2), of ?l]
  obtain s' where "appendLayerUpdater ?l (editorState ?a) = Inr s'" "snapshot_ok s'"
    by auto
  from setEditorState_app_ok[where f="appendLayerUpdater ?l", OF ok this]
  obtain a' where "setEditorState ?a (appendLayerUpdater ?l) = Inr a'"
    by blast
  with outside show ?thesis by (simp add: tryOn_def Let_def)
qed

lemma garment_app_ok:
  assumes "app_ok a"
  shows "\<exists>a'. after (handleGarmentSelect e a garmentFile garmentInfo enhance) = Some a'
    \<and> app_ok a'"
proof (cases rule: handleGarmentSelect_cases[of a e garmentFile garmentInfo enhance])
  case guard
  with assms show ?thesis by simp
next
  case (shortcut u)
  from advance_ok[OF app_ok_current[OF assms] shortcut(4)]
  obtain s' where s': "advanceUpdater (editorState (clearSuggestions a)) = Inr s'" "snapshot_ok s'"
    by auto
  have "app_ok (clearSuggestions a)" using assms by simp
  from setEditorState_app_ok[where f=advanceUpdater, OF this s']
  obtain a' where "setEditorState (clearSuggestions a) advanceUpdater = Inr a'" "app_ok a'"
    by blast
  with shortcut(5) show ?thesis by simp
next
  case (cleanup_failed u m)
  with assms show ?thesis by simp
next
  case (enhanced u ef)
  let ?a3 = "(clearSuggestions a)\<lparr>error := None, isLoading := True,
    loadingMessage := ''Enhancing '' @ item_name garmentInfo @ ''...''\<rparr>"
  have ok: "app_ok ?a3" using assms by simp
  have "truthy (displayImageUrl (editorState a))" using enhanced(1,2) by simp
  from snapshot_ok_shown(1)[OF app_ok_current[OF assms] this]
  have ne: "outfitHistory (editorState ?a3) \<noteq> []" by simp
  from tryOn_app_ok[OF ok ne] show ?thesis unfolding enhanced(6) .
next
  case (plain u)
  let ?a2 = "(clearSuggestions a)\<lparr>error := None, isLoading := True\<rparr>"
  have ok: "app_ok ?a2" using assms by simp
  have "truthy (displayImageUrl (editorState a))" using plain(1,2) by simp
  from snapshot_ok_shown(1)[OF app_ok_current[OF assms] this]
  have ne: "outfitHistory (editorState ?a2) \<noteq> []" by simp
  from tryOn_app_ok[OF ok ne] show ?thesis unfolding plain(5) .
qed

lemma pose_app_ok:
  assumes "app_ok a"
  shows "\<exists>a'. after (handlePoseSelect e a newPose) = Some a' \<and> app_ok a'"
proof (cases rule: handlePoseSelect_cases[of a newPose e])
  case guard
  with assms show ?thesis by simp
next
  case thrown
  with assms show ?thesis by simp
next
  case (cached l)
  have ok: "app_ok (clearSuggestions a)" using assms by simp
  have "snapshot_ok ((editorState a)\<lparr>currentPose := newPose\<rparr>)"
    using app_ok_current[OF assms] by (simp add: snapshot_ok_def layer_invariant_def)
  from setEditorState_app_ok[of "clearSuggestions a"
      "\<lambda>prev. Inr (prev\<lparr>currentPose := newPose\<rparr>)", OF ok _ this]
  obtain a' where
    "setEditorState (clearSuggestions a) (\<lambda>prev. Inr (prev\<lparr>currentPose := newPose\<rparr>)) = Inr a'"
    "app_ok a'"
    by auto
  with cached(5) show ?thesis by simp
next
  case no_base
  with assms show ?thesis by simp
next
  case (failed b m)
  with assms show ?thesis by simp
next
  case (generated l b x)
  let ?a2 = "(clearSuggestions a)\<lparr>error := None, isLoading := True,
    loadingMessage := ''Changing pose...''\<rparr>"
  have ok: "app_ok ?a2" using assms by simp
  have es: "editorState ?a2 = editorState a" by simp
  from poseUpdater_ok[OF app_ok_current[OF assms] generated(2), of newPose x]
  obtain s' where "poseUpdater newPose x (editorState ?a2) = Inr s'" "snapshot_ok s'"
    unfolding es by auto
  from setEditorState_app_ok[where f="poseUpdater newPose x", OF ok this]
  obtain a' where "setEditorState ?a2 (poseUpdater newPose x) = Inr a'" "app_ok a'"
    by blast
  with generated(5) show ?thesis by simp
qed

lemma background_app_ok:
  assumes "app_ok a"
  shows "\<exists>a'. after (handleBackgroundChange e a p) = Some a' \<and> app_ok a'"
proof (cases rule: handleBackgroundChange_cases[of a e p])
  case guard
  with assms show ?thesis by simp
next
  case (failed u m)
  with assms show ?thesis by simp
next
  case (generated u x)
  let ?a2 = "(clearSuggestions a)\<lparr>error := None, isLoading := True,
    loadingMessage := ''Generating new scene...''\<rparr>"
  have ok: "app_ok ?a2" using assms by simp
  have es: "editorState ?a2 = editorState a" by simp
  have "truthy (displayImageUrl (editorState a))" using generated(1,2) by simp
  from snapshot_ok_shown(1)[OF app_ok_current[OF assms] this]
  have ne: "outfitHistory (editorState a) \<noteq> []" .
  from backgroundUpdater_ok[OF app_ok_current[OF assms] ne, of x]
  obtain s' where "backgroundUpdater x (editorState ?a2) = Inr s'" "snapshot_ok s'"
    unfolding es by auto
  from setEditorState_app_ok[where f="backgroundUpdater x", OF ok this]
  obtain a' where "setEditorState ?a2 (backgroundUpdater x) = Inr a'" "app_ok a'"
    by blast
  with generated(5) show ?thesis by simp
qed

lemma remove_app_ok:
  assumes "app_ok a"
  shows "\<exists>a'. after (handleRemoveLayer a li) = Some a' \<and> app_ok a'"
proof (cases "isBusy a")
  case True
  with assms show ?thesis by (simp add: handleRemoveLayer_def)
next
  case False
  from removeLayerUpdater_ok[OF app_ok_current[OF assms], of li]
  show ?thesis
  proof
    assume "removeLayerUpdater li (editorState a) = Inl TypeError"
    then have "setEditorState a (removeLayerUpdater li) = Inl TypeError"
      by (simp add: setEditorState_def setState_def editorState_def)
    with False assms show ?thesis by (simp add: handleRemoveLayer_def)
  next
    assume "\<exists>s'. removeLayerUpdater li (editorState a) = Inr s' \<and> snapshot_ok s'"
    then obtain s' where "removeLayerUpdater li (editorState a) = Inr s'" "snapshot_ok s'"
      by blast
    from setEditorState_app_ok[where f="removeLayerUpdater li", OF assms this]
    obtain a' where "setEditorState a (removeLayerUpdater li) = Inr a'" "app_ok a'"
      by blast
    with False show ?thesis by (simp add: handleRemoveLayer_def)
  qed
qed

lemma step_app_ok:
  assumes "app_ok a"
  shows "\<exists>a'. after (step e a x) = Some a' \<and> app_ok a'"
proof (cases x)
  case (FinalizeModel url)
  then show ?thesis by (simp add: finalized_app_ok)
next
  case (ApplyGarment garmentFile garmentInfo enhance)
  with garment_app_ok[OF assms] show ?thesis by simp
next
  case (SelectPose newPose)
  with pose_app_ok[OF assms] show ?thesis by simp
next
  case (ChangeBackground p)
  with background_app_ok[OF assms] show ?thesis by simp
next
  case (RemoveLayer li)
  with remove_app_ok[OF assms] show ?thesis by simp
next
  case Reset
  then show ?thesis by (simp add: startOver_app_ok)
next
  case Undo
  with assms show ?thesis by (simp add: undo_app_ok)
next
  case Redo
  with assms show ?thesis by (simp add: redo_app_ok)
qed

lemma run_app_ok:
  "app_ok a \<Longrightarrow> \<exists>a'. run a script = Some a' \<and> app_ok a'"
proof (induction script arbitrary: a)
  case Nil
  then show ?case by simp
next
  case (Cons ex script)
  obtain e x where ex: "ex = (e, x)" by (cases ex)
  from step_app_ok[OF Cons.prems, of e x]
  obtain a1 where a1: "after (step e a x) = Some a1" "app_ok a1" by blast
  from Cons.IH[OF a1(2)] a1(1) ex show ?case by simp
qed

lemma redoShortcut_unreachable:
  assumes "run initialAppState script = Some a"
  shows "\<not> redoShortcut (editorState a) g"
proof -
  from run_app_ok[OF app_ok_initial, of script] assms have "app_ok a" by auto
  then have "snapshot_ok (editorState a)" by (rule app_ok_current)
  then have "at_index (outfitHistory (editorState a))
      (int (currentOutfitIndex (editorState a)) + 1) = None"
    by (cases "outfitHistory (editorState a) = []") (auto simp: snapshot_ok_def at_index_def)
  then show ?thesis by (simp add: redoShortcut_def)
qed

text \<open>
  Claim C7 (layer invariant). Start from the initial component state and run any sequence
  of engine operations (finalize, apply garment, select pose, change background, remove
  layer, reset, undo, redo), with any arguments and any answers of the Gateway. The run
  always arrives at a component state, and in its current snapshot, whenever the layer
  list is not empty, \<open>currentOutfitIndex\<close> is an index into the layer list and the layer
  at index 0 has no garment.
\<close>

theorem layer_invariant_holds:
  "\<exists>a. run initialAppState script = Some a
     \<and> (outfitHistory (editorState a) \<noteq> [] \<longrightarrow>
          currentOutfitIndex (editorState a) < length (outfitHistory (editorState a))
          \<and> garment (outfitHistory (editorState a) ! 0) = None)"
proof -
  from run_app_ok[OF app_ok_initial, of script]
  obtain a where a: "run initialAppState script = Some a" "app_ok a" by blast
  from app_ok_current[OF a(2)] have "layer_invariant (editorState a)"
    by (simp add: snapshot_ok_def)
  with a(1) show ?thesis by (auto simp: layer_invariant_def)
qed

lemma example_session_runs:
  "map_option (\<lambda>a. map garment (outfitHistory (editorState a))) (run initialAppState example_session)
     = Some [None, Some g1]"
  by (simp add: example_session_def scenario_defs handler_defs Let_def
      handlePoseSelect_def handleBackgroundChange_def handleRemoveLayer_def handleStartOver_def
      poseUpdater_def backgroundUpdater_def removeLayerUpdater_def rewriteLayer_def
      POSE_INSTRUCTIONS_def assign_def integer_like_def is_digit_def has_property_def
      object_prototype_members_def)

theorem layer_invariant_holds_witness:
  "\<exists>a. run initialAppState example_session = Some a
     \<and> outfitHistory (editorState a) \<noteq> []
     \<and> currentOutfitIndex (editorState a) < length (outfitHistory (editorState a))
     \<and> garment (outfitHistory (editorState a) ! 0) = None"
  using layer_invariant_holds[of example_session] example_session_runs
  by auto

end
